theory Spec2Isabelle
  imports Complex_Main "HOL-Library.Log_Nat"
begin

section \<open>Circuit breaker (package resilience)\<close>

text \<open>
  Modelling conventions.
  \<^item> Go's \<open>error\<close> values are represented by their \<open>Error()\<close> text; \<open>nil\<close> is \<open>None\<close>.
    The gateway itself compares errors by that text.
  \<^item> An instant is an integer, the nanoseconds after the zero \<open>time.Time\<close>; a
    \<open>time.Duration\<close> is an integer number of nanoseconds. Clock readings are parameters.
    \<open>time.Since\<close> is the library's saturating subtraction.
  \<^item> The counters \<open>failureCount\<close> and \<open>successCount\<close> are Go \<open>int\<close>s that only ever move
    by \<open>++\<close> or are set to 0; they are modelled by unbounded integers, so the results
    below speak about runs shorter than the \<open>2^63\<close> increments a wrap-around needs.
  \<^item> The function handed to \<open>Execute\<close> is a closure with effects. It is a state
    transformer on an environment \<open>'w\<close>; "the call is invoked" means that the environment
    after \<open>Execute\<close> is the one the closure leaves behind, "the call is not invoked" that
    the environment is untouched.
  \<^item> The model is sequential: every critical section of the source runs atomically and
    one \<open>Execute\<close> finishes before the next starts.
\<close>

type_synonym error = string

datatype CircuitBreakerState = StateClosed | StateHalfOpen | StateOpen

record CircuitBreakerSettings =
  MaxFailures :: int
  ResetTimeout :: int
  SuccessThreshold :: int
  Timeout :: int

record CircuitBreaker =
  state :: CircuitBreakerState
  failureCount :: int
  successCount :: int
  lastFailureTime :: int
  settings :: CircuitBreakerSettings

definition second :: int where
  "second = 1000000000"

definition millisecond :: int where
  "millisecond = 1000000"

definition DefaultSettings :: CircuitBreakerSettings where
  "DefaultSettings =
     \<lparr>MaxFailures = 5, ResetTimeout = 60 * second, SuccessThreshold = 3, Timeout = 30 * second\<rparr>"

text \<open>The zero \<open>time.Time\<close>, the value of \<open>lastFailureTime\<close> in a new breaker.\<close>

definition zeroTime :: int where
  "zeroTime = 0"

definition NewCircuitBreaker :: "CircuitBreakerSettings \<Rightarrow> CircuitBreaker" where
  "NewCircuitBreaker s =
     \<lparr>state = StateClosed, failureCount = 0, successCount = 0,
      lastFailureTime = zeroTime, settings = s\<rparr>"

definition maxDuration :: int where
  "maxDuration = 2 ^ 63 - 1"

definition minDuration :: int where
  "minDuration = - (2 ^ 63)"

text \<open>\<open>time.Since t\<close> read at instant \<open>now\<close>: \<open>now.Sub(t)\<close>, which saturates.\<close>

definition time_Since :: "int \<Rightarrow> int \<Rightarrow> int" where
  "time_Since t now =
     (let d = now - t in
      if d > maxDuration then maxDuration else if d < minDuration then minDuration else d)"

text \<open>
  \<open>getState\<close> reads the clock twice: once under the read lock (\<open>t1\<close>) and once more
  after taking the write lock (\<open>t2\<close>). It returns the state it reads last.
\<close>

definition getState :: "CircuitBreaker \<Rightarrow> int \<Rightarrow> int \<Rightarrow> CircuitBreakerState \<times> CircuitBreaker" where
  "getState cb t1 t2 =
     (let cb' =
        (if state cb = StateOpen then
           (if time_Since (lastFailureTime cb) t1 > ResetTimeout (settings cb) then
              (if state cb = StateOpen
                  \<and> time_Since (lastFailureTime cb) t2 > ResetTimeout (settings cb)
               then cb\<lparr>state := StateHalfOpen, successCount := 0\<rparr>
               else cb)
            else cb)
         else cb)
      in (state cb', cb'))"

definition onSuccess :: "CircuitBreaker \<Rightarrow> CircuitBreaker" where
  "onSuccess cb =
     (let cb1 = cb\<lparr>successCount := successCount cb + 1\<rparr> in
      if state cb1 = StateHalfOpen \<and> successCount cb1 \<ge> SuccessThreshold (settings cb1)
      then cb1\<lparr>state := StateClosed, failureCount := 0, successCount := 0\<rparr>
      else if state cb1 = StateClosed then cb1\<lparr>failureCount := 0\<rparr>
      else cb1)"

definition onFailure :: "CircuitBreaker \<Rightarrow> int \<Rightarrow> CircuitBreaker" where
  "onFailure cb now =
     (let cb1 = cb\<lparr>failureCount := failureCount cb + 1, lastFailureTime := now\<rparr> in
      if failureCount cb1 \<ge> MaxFailures (settings cb1)
      then cb1\<lparr>state := StateOpen\<rparr>
      else cb1)"

text \<open>
  What \<open>executeWithTimeout\<close> sees of the closure: either the closure delivers its result
  on the channel first (\<open>Finished\<close>), or the context (the caller's, or the breaker's
  \<open>Timeout\<close>) is done first and \<open>ctx.Err()\<close> is returned (\<open>CtxDone\<close>).
\<close>

datatype fn_result = Finished "error option" | CtxDone error

type_synonym 'w fn = "'w \<Rightarrow> fn_result \<times> 'w"

definition executeWithTimeout :: "'w fn \<Rightarrow> 'w \<Rightarrow> error option \<times> 'w" where
  "executeWithTimeout fn w =
     (case fn w of
        (Finished err, w') \<Rightarrow> (err, w')
      | (CtxDone e, w') \<Rightarrow> (Some e, w'))"

definition executeClosed ::
  "CircuitBreaker \<Rightarrow> int \<Rightarrow> 'w fn \<Rightarrow> 'w \<Rightarrow> error option \<times> CircuitBreaker \<times> 'w" where
  "executeClosed cb now fn w =
     (case executeWithTimeout fn w of
        (Some err, w') \<Rightarrow> (Some err, onFailure cb now, w')
      | (None, w') \<Rightarrow> (None, onSuccess cb, w'))"

definition executeHalfOpen ::
  "CircuitBreaker \<Rightarrow> int \<Rightarrow> 'w fn \<Rightarrow> 'w \<Rightarrow> error option \<times> CircuitBreaker \<times> 'w" where
  "executeHalfOpen cb now fn w =
     (case executeWithTimeout fn w of
        (Some err, w') \<Rightarrow> (Some err, onFailure cb now, w')
      | (None, w') \<Rightarrow> (None, onSuccess cb, w'))"

text \<open>The three clock readings one \<open>Execute\<close> can make, in program order.\<close>

record ticks =
  t_check :: int
  t_recheck :: int
  t_fail :: int

definition errCircuitOpen :: error where
  "errCircuitOpen = ''circuit breaker is open''"

definition Execute ::
  "CircuitBreaker \<Rightarrow> ticks \<Rightarrow> 'w fn \<Rightarrow> 'w \<Rightarrow> error option \<times> CircuitBreaker \<times> 'w" where
  "Execute cb tk fn w =
     (case getState cb (t_check tk) (t_recheck tk) of
        (StateOpen, cb') \<Rightarrow> (Some errCircuitOpen, cb', w)
      | (StateHalfOpen, cb') \<Rightarrow> executeHalfOpen cb' (t_fail tk) fn w
      | (StateClosed, cb') \<Rightarrow> executeClosed cb' (t_fail tk) fn w)"

text \<open>A run of successive \<open>Execute\<close> calls on one breaker, each with its own clock
  readings and closure.\<close>

fun Execute_all :: "CircuitBreaker \<Rightarrow> (ticks \<times> 'w fn) list \<Rightarrow> 'w \<Rightarrow> CircuitBreaker \<times> 'w" where
  "Execute_all cb [] w = (cb, w)"
| "Execute_all cb ((tk, fn) # rest) w =
     (case Execute cb tk fn w of (_, cb', w') \<Rightarrow> Execute_all cb' rest w')"

text \<open>A closure fails when, whatever the environment, the breaker sees an error.\<close>

definition failing :: "'w fn \<Rightarrow> bool" where
  "failing fn = (\<forall>w. fst (executeWithTimeout fn w) \<noteq> None)"

definition succeeding :: "'w fn \<Rightarrow> bool" where
  "succeeding fn = (\<forall>w. fst (executeWithTimeout fn w) = None)"

text \<open>The environment after invoking each closure of a run once, in order.\<close>

fun invoke_all :: "(ticks \<times> 'w fn) list \<Rightarrow> 'w \<Rightarrow> 'w" where
  "invoke_all [] w = w"
| "invoke_all ((tk, fn) # rest) w = invoke_all rest (snd (fn w))"

subsection \<open>The critical sections as operations\<close>

text \<open>
  The breaker changes only inside \<open>getState\<close>, \<open>onSuccess\<close> and \<open>onFailure\<close>. A sequence
  of breaker operations is a list of these; every \<open>Execute\<close> is an open-timeout check
  followed by at most one recorded outcome.
\<close>

datatype breaker_op = TimeoutCheck int int | Success | Failure int

fun apply_op :: "CircuitBreaker \<Rightarrow> breaker_op \<Rightarrow> CircuitBreaker" where
  "apply_op cb (TimeoutCheck t1 t2) = snd (getState cb t1 t2)"
| "apply_op cb Success = onSuccess cb"
| "apply_op cb (Failure now) = onFailure cb now"

definition apply_ops :: "CircuitBreaker \<Rightarrow> breaker_op list \<Rightarrow> CircuitBreaker" where
  "apply_ops cb ops = foldl apply_op cb ops"

text \<open>The operations one \<open>Execute\<close> performs, given what the closure does.\<close>

definition ops_of_Execute :: "CircuitBreaker \<Rightarrow> ticks \<Rightarrow> 'w fn \<Rightarrow> 'w \<Rightarrow> breaker_op list" where
  "ops_of_Execute cb tk fn w =
     TimeoutCheck (t_check tk) (t_recheck tk) #
     (if fst (getState cb (t_check tk) (t_recheck tk)) = StateOpen then []
      else (case fst (executeWithTimeout fn w) of
              None \<Rightarrow> [Success]
            | Some e \<Rightarrow> [Failure (t_fail tk)]))"

text \<open>The operations a run of executes performs.\<close>

fun ops_of_run :: "CircuitBreaker \<Rightarrow> (ticks \<times> 'w fn) list \<Rightarrow> 'w \<Rightarrow> breaker_op list" where
  "ops_of_run cb [] w = []"
| "ops_of_run cb ((tk, fn) # rest) w =
     ops_of_Execute cb tk fn w @
     ops_of_run (fst (snd (Execute cb tk fn w))) rest (snd (snd (Execute cb tk fn w)))"

text \<open>What holds of the counters in every state a breaker can reach.\<close>

definition breaker_inv :: "CircuitBreaker \<Rightarrow> bool" where
  "breaker_inv cb =
     (0 \<le> failureCount cb \<and> 0 \<le> successCount cb
      \<and> (state cb \<noteq> StateClosed \<longrightarrow> failureCount cb \<ge> MaxFailures (settings cb)))"

subsection \<open>Concurrent executes\<close>

text \<open>
  Executes that run at the same time on one breaker interleave their critical sections;
  the mutex makes each section atomic. An execute is a small program: the read-locked
  check of \<open>getState\<close>, then (only if the breaker was Open and due) the write-locked
  re-check with the transition and the read-locked re-read, then the call, made outside
  any lock, then the write-locked \<open>onSuccess\<close> or \<open>onFailure\<close>. An execute carries its clock
  readings and what the call will yield, the point it has reached, and for the record the
  values of \<open>cb.state\<close> it has read, one per section that reads it.
\<close>

datatype pc = AtGetState | AtUpgrade | AtReread | AfterGetState CircuitBreakerState
  | Returned "error option"

record execution =
  ex_ticks :: ticks
  ex_outcome :: "error option"
  ex_pc :: pc
  ex_reads :: "CircuitBreakerState list"

definition new_execution :: "ticks \<Rightarrow> error option \<Rightarrow> execution" where
  "new_execution tk outcome =
     \<lparr>ex_ticks = tk, ex_outcome = outcome, ex_pc = AtGetState, ex_reads = []\<rparr>"

text \<open>The next step of an execute on the breaker as it finds it: its next critical
  section, or its return with the circuit-open error.\<close>

definition critical_section :: "CircuitBreaker \<Rightarrow> execution \<Rightarrow> CircuitBreaker \<times> execution" where
  "critical_section cb x =
     (case ex_pc x of
        AtGetState \<Rightarrow>
          (cb, x\<lparr>ex_reads := ex_reads x @ [state cb],
                 ex_pc := (if state cb = StateOpen
                              \<and> time_Since (lastFailureTime cb) (t_check (ex_ticks x))
                                  > ResetTimeout (settings cb)
                           then AtUpgrade else AfterGetState (state cb))\<rparr>)
      | AtUpgrade \<Rightarrow>
          ((if state cb = StateOpen
               \<and> time_Since (lastFailureTime cb) (t_recheck (ex_ticks x))
                   > ResetTimeout (settings cb)
            then cb\<lparr>state := StateHalfOpen, successCount := 0\<rparr> else cb),
           x\<lparr>ex_reads := ex_reads x @ [state cb], ex_pc := AtReread\<rparr>)
      | AtReread \<Rightarrow>
          (cb, x\<lparr>ex_reads := ex_reads x @ [state cb], ex_pc := AfterGetState (state cb)\<rparr>)
      | AfterGetState st \<Rightarrow>
          (case st of
             StateOpen \<Rightarrow> (cb, x\<lparr>ex_pc := Returned (Some errCircuitOpen)\<rparr>)
           | _ \<Rightarrow>
               (case ex_outcome x of
                  Some err \<Rightarrow> (onFailure cb (t_fail (ex_ticks x)), x\<lparr>ex_pc := Returned (Some err)\<rparr>)
                | None \<Rightarrow>
                    (onSuccess cb,
                     x\<lparr>ex_reads := ex_reads x @ [state cb], ex_pc := Returned None\<rparr>)))
      | Returned r \<Rightarrow> (cb, x))"

text \<open>A schedule names, step by step, the execute that moves next.\<close>

fun run :: "CircuitBreaker \<times> execution list \<Rightarrow> nat list \<Rightarrow> CircuitBreaker \<times> execution list" where
  "run s [] = s"
| "run (cb, xs) (i # schedule) =
     (if i < length xs
      then (case critical_section cb (xs ! i) of
              (cb', x') \<Rightarrow> run (cb', xs[i := x']) schedule)
      else run (cb, xs) schedule)"

section \<open>Retry with exponential backoff (package resilience)\<close>

subsection \<open>float64\<close>

text \<open>
  A \<open>float64\<close> is a finite value \<open>m * 2^e\<close>, kept as the pair of integers, or an
  infinity (with its sign: \<open>True\<close> is negative) or NaN. Every operation below depends
  on a pair only through its value. The two zeros are not told apart: nothing here
  divides or looks at a sign of zero.

  An exact result is rounded to the nearest value with a 53-bit significand, ties to the
  even significand; below \<open>2^(-1022)\<close> the spacing stays \<open>2^(-1074)\<close> (subnormals), and a
  result of magnitude \<open>2^1024\<close> or more is an infinity.
\<close>

datatype float64 = Finite int int | Infinite bool | NaN

definition round_to_even :: "int \<Rightarrow> nat \<Rightarrow> int" where
  "round_to_even m s =
     (let d = m div 2 ^ s; r = m mod 2 ^ s in
      if 2 * r > 2 ^ s \<or> (2 * r = 2 ^ s \<and> odd d) then d + 1 else d)"

definition round64 :: "int \<Rightarrow> int \<Rightarrow> float64" where
  "round64 m e =
     (let q = max (e + bitlen \<bar>m\<bar> - 53) (- 1074);
          k = (if q \<le> e then m else round_to_even m (nat (q - e)));
          e' = (if q \<le> e then e else q)
      in if bitlen \<bar>k\<bar> + e' > 1024 then Infinite (k < 0) else Finite k e')"

text \<open>The conversion \<open>float64(i)\<close> of an integer.\<close>

definition float64_of_int :: "int \<Rightarrow> float64" where
  "float64_of_int i = round64 i 0"

fun fmul :: "float64 \<Rightarrow> float64 \<Rightarrow> float64" where
  "fmul NaN y = NaN"
| "fmul x NaN = NaN"
| "fmul (Infinite s) (Infinite t) = Infinite (s \<noteq> t)"
| "fmul (Infinite s) (Finite m e) = (if m = 0 then NaN else Infinite (s \<noteq> (m < 0)))"
| "fmul (Finite m e) (Infinite s) = (if m = 0 then NaN else Infinite (s \<noteq> (m < 0)))"
| "fmul (Finite m1 e1) (Finite m2 e2) = round64 (m1 * m2) (e1 + e2)"

fun fadd :: "float64 \<Rightarrow> float64 \<Rightarrow> float64" where
  "fadd NaN y = NaN"
| "fadd x NaN = NaN"
| "fadd (Infinite s) (Infinite t) = (if s = t then Infinite s else NaN)"
| "fadd (Infinite s) (Finite m e) = Infinite s"
| "fadd (Finite m e) (Infinite s) = Infinite s"
| "fadd (Finite m1 e1) (Finite m2 e2) =
     (let e = min e1 e2 in round64 (m1 * 2 ^ nat (e1 - e) + m2 * 2 ^ nat (e2 - e)) e)"

text \<open>The comparison \<open>x == 0\<close>.\<close>

fun is_zero :: "float64 \<Rightarrow> bool" where
  "is_zero (Finite m e) = (m = 0)"
| "is_zero x = False"

text \<open>
  The conversion of a float to a 64-bit integer drops the fraction. Where the value is
  not finite or does not fit, Go leaves the result to the implementation: that result is
  the parameter \<open>impl\<close>.
\<close>

fun trunc_float :: "float64 \<Rightarrow> int option" where
  "trunc_float (Finite m e) =
     (let v = (if 0 \<le> e then m * 2 ^ nat e else sgn m * (\<bar>m\<bar> div 2 ^ nat (- e)))
      in if minDuration \<le> v \<and> v \<le> maxDuration then Some v else None)"
| "trunc_float x = None"

definition int64_of_float :: "(float64 \<Rightarrow> int) \<Rightarrow> float64 \<Rightarrow> int" where
  "int64_of_float impl x = (case trunc_float x of Some v \<Rightarrow> v | None \<Rightarrow> impl x)"

text \<open>The real number a finite float stands for.\<close>

fun valof :: "float64 \<Rightarrow> real" where
  "valof (Finite m e) =
     (if 0 \<le> e then real_of_int m * 2 ^ nat e else real_of_int m / 2 ^ nat (- e))"
| "valof x = 0"

definition one :: float64 where
  "one = Finite 1 0"

definition half :: float64 where
  "half = Finite 1 (- 1)"

subsection \<open>The retry loop\<close>

record Retry =
  MaxRetries :: int
  BaseDelay :: int
  MaxDelay :: int
  Multiplier :: float64
  Jitter :: bool

definition DefaultRetry :: Retry where
  "DefaultRetry =
     \<lparr>MaxRetries = 3, BaseDelay = 100 * millisecond, MaxDelay = 30 * second,
      Multiplier = Finite 2 0, Jitter = True\<rparr>"

function pow_loop :: "float64 \<Rightarrow> int \<Rightarrow> int \<Rightarrow> float64 \<Rightarrow> float64" where
  "pow_loop base n i result =
     (if i < n then pow_loop base n (i + 1) (fmul result base) else result)"
  by pat_completeness auto
termination
  by (relation "measure (\<lambda>(base, n, i, result). nat (n - i))") auto

declare pow_loop.simps [simp del]

definition pow :: "(float64 \<Rightarrow> int) \<Rightarrow> float64 \<Rightarrow> float64 \<Rightarrow> float64" where
  "pow impl base e =
     (if is_zero e then one else pow_loop base (int64_of_float impl e) 0 one)"

text \<open>\<open>rnd\<close> is the value \<open>rand.Float64()\<close> returns, in \<open>[0, 1)\<close>, when jitter draws it.\<close>

definition calculateDelay :: "(float64 \<Rightarrow> int) \<Rightarrow> Retry \<Rightarrow> int \<Rightarrow> float64 \<Rightarrow> int" where
  "calculateDelay impl r attempt rnd =
     (let delay = int64_of_float impl
                    (fmul (float64_of_int (BaseDelay r))
                          (pow impl (Multiplier r) (float64_of_int (attempt - 1))));
          delay = (if delay > MaxDelay r then MaxDelay r else delay);
          delay = (if Jitter r
                   then int64_of_float impl
                          (fmul (float64_of_int delay) (fadd half (fmul rnd half)))
                   else delay)
      in delay)"

text \<open>
  The retried function is a closure on an environment \<open>'w\<close>. \<open>ctx attempt\<close> tells
  whether the context is done before the timer of the sleep that precedes \<open>attempt\<close>
  fires, and with which \<open>ctx.Err()\<close>; \<open>rnd attempt\<close> is the random draw of that sleep.
  The result carries the durations actually slept, in order.
\<close>

type_synonym 'w rfn = "'w \<Rightarrow> error option \<times> 'w"

function Retry_loop ::
  "(float64 \<Rightarrow> int) \<Rightarrow> Retry \<Rightarrow> (int \<Rightarrow> error option) \<Rightarrow> (int \<Rightarrow> float64) \<Rightarrow> 'w rfn \<Rightarrow>
   int \<Rightarrow> error option \<Rightarrow> int list \<Rightarrow> 'w \<Rightarrow> error option \<times> int list \<times> 'w" where
  "Retry_loop impl r ctx rnd fn attempt lastErr slept w =
     (if attempt \<le> MaxRetries r then
        (if attempt > 0 \<and> ctx attempt \<noteq> None then (ctx attempt, slept, w)
         else
           (if fst (fn w) \<noteq> None
            then Retry_loop impl r ctx rnd fn (attempt + 1) (fst (fn w))
                   (if attempt > 0 then slept @ [calculateDelay impl r attempt (rnd attempt)]
                    else slept)
                   (snd (fn w))
            else (None,
                  (if attempt > 0 then slept @ [calculateDelay impl r attempt (rnd attempt)]
                   else slept),
                  snd (fn w))))
      else (lastErr, slept, w))"
  by pat_completeness auto
termination
  by (relation "measure (\<lambda>(impl, r, ctx, rnd, fn, attempt, lastErr, slept, w).
                           nat (MaxRetries r + 1 - attempt))") auto

declare Retry_loop.simps [simp del]

definition Retry_Execute ::
  "(float64 \<Rightarrow> int) \<Rightarrow> Retry \<Rightarrow> (int \<Rightarrow> error option) \<Rightarrow> (int \<Rightarrow> float64) \<Rightarrow> 'w rfn \<Rightarrow> 'w \<Rightarrow>
   error option \<times> int list \<times> 'w" where
  "Retry_Execute impl r ctx rnd fn w = Retry_loop impl r ctx rnd fn 0 None [] w"

text \<open>
  The power the loop of \<open>pow\<close> computes: \<open>k\<close> rounded multiplications, starting from 1.
\<close>

definition fpow :: "float64 \<Rightarrow> nat \<Rightarrow> float64" where
  "fpow base k = ((\<lambda>x. fmul x base) ^^ k) one"

section \<open>Gateway (package proxy)\<close>

text \<open>
  The registry maps a name to a \<open>*ServiceConfig\<close>, and a config points to its breaker.
  The model holds the values themselves: a registered config and its breaker are
  reached through the registry only. A nil breaker pointer is \<open>None\<close>.
\<close>

record ServiceConfig =
  Name :: string
  URL :: string
  HealthPath :: string
  svc_Timeout :: int
  Retries :: int
  svc_CircuitBreaker :: "CircuitBreaker option"

record Gateway =
  services :: "string \<rightharpoonup> ServiceConfig"

definition NewGateway :: Gateway where
  "NewGateway = \<lparr>services = Map.empty\<rparr>"

definition RegisterService :: "Gateway \<Rightarrow> ServiceConfig \<Rightarrow> Gateway" where
  "RegisterService g service =
     (let service = (if svc_CircuitBreaker service = None
                     then service\<lparr>svc_CircuitBreaker := Some (NewCircuitBreaker DefaultSettings)\<rparr>
                     else service);
          service = (if svc_Timeout service = 0
                     then service\<lparr>svc_Timeout := 30 * second\<rparr>
                     else service)
      in g\<lparr>services := (services g)(Name service \<mapsto> service)\<rparr>)"

text \<open>The breaker a registry holds for a name.\<close>

definition breaker_of :: "Gateway \<Rightarrow> string \<Rightarrow> CircuitBreaker option" where
  "breaker_of g name =
     (case services g name of None \<Rightarrow> None | Some service \<Rightarrow> svc_CircuitBreaker service)"

subsection \<open>The response writer\<close>

text \<open>
  What the client receives: the status line of the first header write (later ones are
  ignored by the writer) and the bodies written, in order. \<open>gin.H\<close> payloads of strings
  are kept as their key-value pairs.
\<close>

datatype payload = JSON "(string \<times> string) list" | Raw string

record response =
  resp_status :: "int option"
  resp_body :: "payload list"

definition no_response :: response where
  "no_response = \<lparr>resp_status = None, resp_body = []\<rparr>"

definition WriteHeader :: "response \<Rightarrow> int \<Rightarrow> response" where
  "WriteHeader rw code =
     (case resp_status rw of None \<Rightarrow> rw\<lparr>resp_status := Some code\<rparr> | Some c \<Rightarrow> rw)"

definition Write :: "response \<Rightarrow> payload \<Rightarrow> response" where
  "Write rw p = (WriteHeader rw 200)\<lparr>resp_body := resp_body rw @ [p]\<rparr>"

definition c_JSON :: "response \<Rightarrow> int \<Rightarrow> (string \<times> string) list \<Rightarrow> response" where
  "c_JSON rw code obj = Write (WriteHeader rw code) (JSON obj)"

definition StatusNotFound :: int where "StatusNotFound = 404"
definition StatusBadGateway :: int where "StatusBadGateway = 502"
definition StatusServiceUnavailable :: int where "StatusServiceUnavailable = 503"
definition StatusOK :: int where "StatusOK = 200"

subsection \<open>Dispatch\<close>

text \<open>
  What lies outside the gateway during one dispatch: whether \<open>url.Parse\<close> rejects the
  configured URL (and with which text), what the round trip to the backend yields, and
  whether the breaker's context is done before the forwarding closure returns.
  \<open>ReverseProxy.ServeHTTP\<close> copies a backend response to the writer and calls the
  \<open>ErrorHandler\<close> on a transport error.
\<close>

datatype round_trip = TransportError string | Upstream int string

record dispatch_env =
  url_error :: "string option"
  backend :: round_trip
  ctx_first :: "error option"

definition ErrorHandler :: "response \<Rightarrow> string \<Rightarrow> response" where
  "ErrorHandler rw err = Write (WriteHeader rw StatusBadGateway) (Raw ''{\"error\": \"Bad gateway\"}'')"

definition ServeHTTP :: "round_trip \<Rightarrow> response \<Rightarrow> response" where
  "ServeHTTP rt rw =
     (case rt of
        TransportError err \<Rightarrow> ErrorHandler rw err
      | Upstream code body \<Rightarrow> Write (WriteHeader rw code) (Raw body))"

definition proxyRequest :: "ServiceConfig \<Rightarrow> dispatch_env \<Rightarrow> response \<Rightarrow> error option \<times> response" where
  "proxyRequest service env rw =
     (case url_error env of
        Some err \<Rightarrow> (Some (''invalid target URL: '' @ err), rw)
      | None \<Rightarrow> (None, ServeHTTP (backend env) rw))"

text \<open>The closure \<open>func() error { return g.proxyRequest(c, service) }\<close> as the breaker
  sees it.\<close>

definition forward :: "ServiceConfig \<Rightarrow> dispatch_env \<Rightarrow> response fn" where
  "forward service env rw =
     (case ctx_first env of
        Some e \<Rightarrow> (CtxDone e, rw)
      | None \<Rightarrow> (case proxyRequest service env rw of (err, rw') \<Rightarrow> (Finished err, rw')))"

datatype panic = NilPointerDereference

definition ProxyHandler ::
  "Gateway \<Rightarrow> string \<Rightarrow> ticks \<Rightarrow> dispatch_env \<Rightarrow> response \<Rightarrow> panic + Gateway \<times> response" where
  "ProxyHandler g serviceName tk env rw =
     (case services g serviceName of
        None \<Rightarrow> Inr (g, c_JSON rw StatusNotFound [(''error'', ''Service not found'')])
      | Some service \<Rightarrow>
          (case svc_CircuitBreaker service of
             None \<Rightarrow> Inl NilPointerDereference
           | Some cb \<Rightarrow>
               (case Execute cb tk (forward service env) rw of
                  (err, cb', rw') \<Rightarrow>
                    (let g' = g\<lparr>services := (services g)
                                  (serviceName \<mapsto> service\<lparr>svc_CircuitBreaker := Some cb'\<rparr>)\<rparr>
                     in case err of
                          None \<Rightarrow> Inr (g', rw')
                        | Some e \<Rightarrow>
                            if e = ''circuit breaker is open''
                            then Inr (g', c_JSON rw' StatusServiceUnavailable
                                        [(''error'', ''Service temporarily unavailable''),
                                         (''service'', serviceName)])
                            else Inr (g', c_JSON rw' StatusBadGateway
                                        [(''error'', ''Bad gateway''),
                                         (''service'', serviceName)])))))"

text \<open>
  The life of a gateway: backends are registered and requests are dispatched. A
  dispatch that panics leaves the registry as it was.
\<close>

datatype gateway_event = Register ServiceConfig | Dispatch string ticks dispatch_env response

fun gateway_step :: "Gateway \<Rightarrow> gateway_event \<Rightarrow> Gateway" where
  "gateway_step g (Register service) = RegisterService g service"
| "gateway_step g (Dispatch name tk env rw) =
     (case ProxyHandler g name tk env rw of Inl p \<Rightarrow> g | Inr (g', rw') \<Rightarrow> g')"

definition gateway_after :: "gateway_event list \<Rightarrow> Gateway" where
  "gateway_after events = foldl gateway_step NewGateway events"

text \<open>No registered backend is without a breaker.\<close>

definition has_breakers :: "Gateway \<Rightarrow> bool" where
  "has_breakers g =
     (\<forall>name service. services g name = Some service \<longrightarrow> svc_CircuitBreaker service \<noteq> None)"

subsection \<open>Health aggregation\<close>

fun String :: "CircuitBreakerState \<Rightarrow> string" where
  "String StateClosed = ''CLOSED''"
| "String StateHalfOpen = ''HALF_OPEN''"
| "String StateOpen = ''OPEN''"

record stats =
  stat_state :: string
  stat_failure_count :: int
  stat_success_count :: int
  stat_last_failure :: int

definition GetStats :: "CircuitBreaker \<Rightarrow> stats" where
  "GetStats cb =
     \<lparr>stat_state = String (state cb), stat_failure_count = failureCount cb,
      stat_success_count = successCount cb, stat_last_failure = lastFailureTime cb\<rparr>"

definition TrimSuffix :: "string \<Rightarrow> string \<Rightarrow> string" where
  "TrimSuffix s suffix =
     (if length suffix \<le> length s \<and> drop (length s - length suffix) s = suffix
      then take (length s - length suffix) s else s)"

definition TrimPrefix :: "string \<Rightarrow> string \<Rightarrow> string" where
  "TrimPrefix s prefix =
     (if take (length prefix) s = prefix then drop (length prefix) s else s)"

function decimal :: "nat \<Rightarrow> string" where
  "decimal n = (if n < 10 then [''0123456789'' ! n] else decimal (n div 10) @ [''0123456789'' ! (n mod 10)])"
  by pat_completeness auto
termination
  by (relation "measure id") auto

declare decimal.simps [simp del]

definition format_d :: "int \<Rightarrow> string" where
  "format_d i = (if i < 0 then ''-'' @ decimal (nat (- i)) else decimal (nat i))"

text \<open>What the probe \<open>GET healthURL\<close> meets: the request cannot be built, the client
  reports an error (refused, timed out), or a response arrives.\<close>

datatype probe = RequestError string | ClientError string | Response int string

definition checkServiceHealth :: "(string \<Rightarrow> probe) \<Rightarrow> ServiceConfig \<Rightarrow> bool \<times> string" where
  "checkServiceHealth net service =
     (if HealthPath service = [] then (True, ''No health check configured'')
      else
        (let healthURL = TrimSuffix (URL service) ''/'' @ ''/'' @ TrimPrefix (HealthPath service) ''/''
         in case net healthURL of
              RequestError err \<Rightarrow> (False, ''Failed to create health check request: '' @ err)
            | ClientError err \<Rightarrow> (False, ''Health check failed: '' @ err)
            | Response code body \<Rightarrow>
                if code \<ge> 200 \<and> code < 300 then (True, ''Health check passed'')
                else (False, ''Health check failed with status '' @ format_d code @ '': '' @ body)))"

record health_entry =
  healthy :: bool
  details :: string
  circuit_breaker :: stats

record health_response =
  status_code :: int
  status_healthy :: bool
  services_report :: "string \<rightharpoonup> health_entry"
  timestamp :: int

text \<open>
  The loop \<open>for name, service := range g.services\<close>, over the entries in the order
  the runtime yields them.
\<close>

fun health_loop ::
  "(string \<Rightarrow> probe) \<Rightarrow> (string \<times> ServiceConfig) list \<Rightarrow> (string \<rightharpoonup> health_entry) \<Rightarrow> bool \<Rightarrow>
   panic + (string \<rightharpoonup> health_entry) \<times> bool" where
  "health_loop net [] results overallHealthy = Inr (results, overallHealthy)"
| "health_loop net ((name, service) # rest) results overallHealthy =
     (case checkServiceHealth net service of
        (is_healthy, detail) \<Rightarrow>
          (case svc_CircuitBreaker service of
             None \<Rightarrow> Inl NilPointerDereference
           | Some cb \<Rightarrow>
               health_loop net rest
                 (results(name \<mapsto> \<lparr>healthy = is_healthy, details = detail,
                                   circuit_breaker = GetStats cb\<rparr>))
                 (if \<not> is_healthy then False else overallHealthy)))"

definition HealthCheckHandler ::
  "(string \<Rightarrow> probe) \<Rightarrow> (string \<times> ServiceConfig) list \<Rightarrow> int \<Rightarrow> panic + health_response" where
  "HealthCheckHandler net entries now =
     (case health_loop net entries Map.empty True of
        Inl p \<Rightarrow> Inl p
      | Inr (results, overallHealthy) \<Rightarrow>
          Inr \<lparr>status_code = (if \<not> overallHealthy then StatusServiceUnavailable else StatusOK),
               status_healthy = overallHealthy,
               services_report = results,
               timestamp = now\<rparr>)"

text \<open>An enumeration of a registry: every entry once, in any order.\<close>

definition range_of :: "Gateway \<Rightarrow> (string \<times> ServiceConfig) list \<Rightarrow> bool" where
  "range_of g entries = (distinct (map fst entries) \<and> map_of entries = services g)"

text \<open>The entry the health loop stores for one backend; none if its breaker is nil.\<close>

definition report :: "(string \<Rightarrow> probe) \<Rightarrow> ServiceConfig \<Rightarrow> health_entry option" where
  "report net service =
     (case svc_CircuitBreaker service of
        None \<Rightarrow> None
      | Some cb \<Rightarrow>
          Some \<lparr>healthy = fst (checkServiceHealth net service),
                details = snd (checkServiceHealth net service),
                circuit_breaker = GetStats cb\<rparr>)"

section \<open>Concrete breakers, configurations and environments\<close>

text \<open>The inputs at which the results below are instantiated.\<close>

text \<open>Two closures for a breaker, on a call counter.\<close>

definition call_fails :: "nat fn" where
  "call_fails n = (Finished (Some ''connection refused''), Suc n)"

definition call_ok :: "nat fn" where
  "call_ok n = (Finished None, Suc n)"

definition at_time :: "int \<Rightarrow> ticks" where
  "at_time t = \<lparr>t_check = t, t_recheck = t, t_fail = t\<rparr>"

definition settings3 :: CircuitBreakerSettings where
  "settings3 =
     \<lparr>MaxFailures = 3, ResetTimeout = 60 * second, SuccessThreshold = 2, Timeout = 30 * second\<rparr>"

definition settings1 :: CircuitBreakerSettings where
  "settings1 =
     \<lparr>MaxFailures = 1, ResetTimeout = 10 * second, SuccessThreshold = 2, Timeout = 30 * second\<rparr>"

definition open1 :: CircuitBreaker where
  "open1 = \<lparr>state = StateOpen, failureCount = 1, successCount = 0,
            lastFailureTime = 5 * second, settings = settings1\<rparr>"

definition halfopen0 :: CircuitBreaker where
  "halfopen0 = \<lparr>state = StateHalfOpen, failureCount = 1, successCount = 0,
                lastFailureTime = 5 * second, settings = settings1\<rparr>"

definition halfopen1 :: CircuitBreaker where
  "halfopen1 = \<lparr>state = StateHalfOpen, failureCount = 1, successCount = 1,
                lastFailureTime = 5 * second, settings = settings1\<rparr>"

text \<open>One implementation's answer to a float-to-integer conversion that overflows.\<close>

definition indefinite :: "float64 \<Rightarrow> int" where
  "indefinite x = minDuration"

definition no_draw :: "int \<Rightarrow> float64" where
  "no_draw attempt = Finite 0 0"

definition never_done :: "int \<Rightarrow> error option" where
  "never_done attempt = None"

text \<open>A retried closure that always fails, on a call counter.\<close>

definition rcall_fails :: "nat rfn" where
  "rcall_fails n = (Some ''connection refused'', Suc n)"

definition retry3 :: Retry where
  "retry3 = DefaultRetry\<lparr>Jitter := False\<rparr>"

text \<open>The multiplier 1.01: the \<open>float64\<close> nearest to it.\<close>

definition retry_101 :: Retry where
  "retry_101 =
     \<lparr>MaxRetries = 4, BaseDelay = 100 * millisecond, MaxDelay = 30 * second,
      Multiplier = Finite 4548635623644201 (- 52), Jitter = False\<rparr>"

definition retry_40 :: Retry where
  "retry_40 = retry3\<lparr>MaxRetries := 40\<rparr>"

definition user_service :: ServiceConfig where
  "user_service =
     \<lparr>Name = ''user-service'', URL = ''http://user-service:8081'', HealthPath = ''/health'',
      svc_Timeout = 30 * second, Retries = 0,
      svc_CircuitBreaker = Some (NewCircuitBreaker settings3)\<rparr>"

definition user_service_moved :: ServiceConfig where
  "user_service_moved = user_service\<lparr>URL := ''http://10.0.0.9:8081''\<rparr>"

definition order_service :: ServiceConfig where
  "order_service =
     \<lparr>Name = ''order-service'', URL = ''http://order-service:8082/'', HealthPath = ''/health'',
      svc_Timeout = 0, Retries = 0, svc_CircuitBreaker = None\<rparr>"

definition order_service_stored :: ServiceConfig where
  "order_service_stored =
     order_service\<lparr>svc_CircuitBreaker := Some (NewCircuitBreaker DefaultSettings),
                   svc_Timeout := 30 * second\<rparr>"

definition connection_refused :: dispatch_env where
  "connection_refused =
     \<lparr>url_error = None,
      backend = TransportError ''dial tcp 10.0.0.5:8081: connect: connection refused'',
      ctx_first = None\<rparr>"

definition unparsable_url :: dispatch_env where
  "unparsable_url =
     \<lparr>url_error = Some ''parse \"http://user service\": invalid character \" \" in host name'',
      backend = TransportError ''dial tcp 10.0.0.5:8081: connect: connection refused'',
      ctx_first = None\<rparr>"

text \<open>
  A backend without a health path, whose target URL does not parse and whose breaker
  opens on the first failure; and a gateway that has dispatched to it once.
\<close>

definition payment_service :: ServiceConfig where
  "payment_service =
     \<lparr>Name = ''payment-service'', URL = ''http://payment service'', HealthPath = [],
      svc_Timeout = 30 * second, Retries = 0,
      svc_CircuitBreaker = Some (NewCircuitBreaker settings1)\<rparr>"

definition three_services :: Gateway where
  "three_services =
     gateway_after
       [Register user_service, Register order_service, Register payment_service,
        Dispatch ''payment-service'' (at_time (5 * second)) unparsable_url no_response]"

definition three_entries :: "(string \<times> ServiceConfig) list" where
  "three_entries =
     [(''payment-service'', payment_service\<lparr>svc_CircuitBreaker := Some open1\<rparr>),
      (''order-service'', order_service_stored),
      (''user-service'', user_service)]"

definition orders_down :: "string \<Rightarrow> probe" where
  "orders_down url =
     (if url = ''http://order-service:8082/health'' then Response 500 ''down''
      else Response 200 ''ok'')"

text \<open>Two executes that meet on a new breaker, and one that finds a breaker due for a
  half-open trial at its re-check.\<close>

definition two_executes :: "execution list" where
  "two_executes =
     [new_execution (at_time 1) None, new_execution (at_time 2) (Some ''connection refused'')]"

definition upgrading :: execution where
  "upgrading = (new_execution (at_time (20 * second)) None)\<lparr>ex_pc := AtUpgrade\<rparr>"

section \<open>Results\<close>

subsection \<open>Consecutive failures open a Closed breaker\<close>

lemma snd_executeWithTimeout: "snd (executeWithTimeout fn w) = snd (fn w)"
  by (simp add: executeWithTimeout_def split: prod.splits fn_result.splits)

lemma getState_not_Open: "state cb \<noteq> StateOpen \<Longrightarrow> getState cb t1 t2 = (state cb, cb)"
  by (simp add: getState_def)

lemma Execute_Closed_failing:
  assumes "state cb = StateClosed" and "failing fn"
  shows "\<exists>e. Execute cb tk fn w = (Some e, onFailure cb (t_fail tk), snd (fn w))"
proof -
  obtain r w' where r: "executeWithTimeout fn w = (r, w')"
    by (cases "executeWithTimeout fn w")
  with assms(2) obtain e where e: "r = Some e"
    by (auto simp: failing_def dest: spec [of _ w])
  from r have w': "w' = snd (fn w)"
    using snd_executeWithTimeout [of fn w] by simp
  show ?thesis
    using assms(1) r e w'
    by (simp add: Execute_def getState_not_Open executeClosed_def)
qed

lemma onFailure_below:
  assumes "failureCount cb + 1 < MaxFailures (settings cb)"
  shows "onFailure cb now = cb\<lparr>failureCount := failureCount cb + 1, lastFailureTime := now\<rparr>"
  using assms by (simp add: onFailure_def Let_def)

lemma onFailure_reaches:
  assumes "failureCount cb + 1 \<ge> MaxFailures (settings cb)"
  shows "onFailure cb now =
           cb\<lparr>failureCount := failureCount cb + 1, lastFailureTime := now, state := StateOpen\<rparr>"
  using assms by (simp add: onFailure_def Let_def)

lemma Execute_all_failing_below:
  assumes "state cb = StateClosed"
    and "list_all (\<lambda>x. failing (snd x)) xs"
    and "failureCount cb + int (length xs) < MaxFailures (settings cb)"
  shows "state (fst (Execute_all cb xs w)) = StateClosed
         \<and> failureCount (fst (Execute_all cb xs w)) = failureCount cb + int (length xs)
         \<and> settings (fst (Execute_all cb xs w)) = settings cb
         \<and> snd (Execute_all cb xs w) = invoke_all xs w"
  using assms
proof (induction xs arbitrary: cb w)
  case Nil
  then show ?case by simp
next
  case (Cons x xs)
  obtain tk fn where x: "x = (tk, fn)" by (cases x)
  from Cons.prems x have f: "failing fn" by simp
  from Execute_Closed_failing [OF Cons.prems(1) f]
  obtain e where ex: "Execute cb tk fn w = (Some e, onFailure cb (t_fail tk), snd (fn w))"
    by blast
  let ?cb = "onFailure cb (t_fail tk)"
  from Cons.prems(3) have below: "failureCount cb + 1 < MaxFailures (settings cb)"
    by simp
  have cb': "?cb = cb\<lparr>failureCount := failureCount cb + 1, lastFailureTime := t_fail tk\<rparr>"
    by (rule onFailure_below [OF below])
  have st: "state ?cb = StateClosed" using Cons.prems(1) by (simp add: cb')
  have rest: "list_all (\<lambda>x. failing (snd x)) xs" using Cons.prems(2) by simp
  have cnt: "failureCount ?cb + int (length xs) < MaxFailures (settings ?cb)"
    using Cons.prems(3) by (simp add: cb')
  have step: "Execute_all cb (x # xs) w = Execute_all ?cb xs (snd (fn w))"
    unfolding x by (simp add: ex)
  have fc: "failureCount ?cb = failureCount cb + 1" by (simp add: cb')
  have se: "settings ?cb = settings cb" by (simp add: cb')
  from Cons.IH [OF st rest cnt, of "snd (fn w)"]
  show ?case
    unfolding step fc se by (simp add: x)
qed

lemma Execute_all_snoc:
  "Execute_all cb (xs @ [(tk, fn)]) w =
     snd (Execute (fst (Execute_all cb xs w)) tk fn (snd (Execute_all cb xs w)))"
  by (induction xs arbitrary: cb w) (auto split: prod.splits)

lemma invoke_all_snoc: "invoke_all (xs @ [(tk, fn)]) w = snd (fn (invoke_all xs w))"
  by (induction xs arbitrary: w) auto

text \<open>
  C2. A breaker that is Closed with no failure counted yet and \<open>MaxFailures = k\<close>,
  \<open>k \<ge> 1\<close>, is driven by executes whose calls all fail. After \<open>k - 1\<close> of them the
  state is still Closed, every one of those calls was invoked, and the next execute
  invokes its call too; if that call fails as well, that is after exactly \<open>k\<close>
  consecutive failures, the state is Open.
\<close>

theorem breaker_opens_after_exactly_k_failures:
  assumes "state cb = StateClosed"
    and "failureCount cb = 0"
    and "MaxFailures (settings cb) = k"
    and "k \<ge> 1"
    and "list_all (\<lambda>x. failing (snd x)) xs"
    and "int (length xs) = k - 1"
    and "failing fn"
  shows "state (fst (Execute_all cb xs w)) = StateClosed
       \<and> snd (Execute_all cb xs w) = invoke_all xs w
       \<and> snd (snd (Execute (fst (Execute_all cb xs w)) tk fn w')) = snd (fn w')
       \<and> state (fst (Execute_all cb (xs @ [(tk, fn)]) w)) = StateOpen
       \<and> snd (Execute_all cb (xs @ [(tk, fn)]) w) = invoke_all (xs @ [(tk, fn)]) w"
proof -
  let ?cb = "fst (Execute_all cb xs w)"
  have below: "failureCount cb + int (length xs) < MaxFailures (settings cb)"
    using assms(2,3,6) by simp
  note run = Execute_all_failing_below [OF assms(1) assms(5) below, of w]
  have closed: "state ?cb = StateClosed" using run by blast
  have inv: "snd (Execute_all cb xs w) = invoke_all xs w" using run by blast
  have last: "\<exists>e. Execute ?cb tk fn v = (Some e, onFailure ?cb (t_fail tk), snd (fn v))" for v
    by (rule Execute_Closed_failing [OF closed assms(7)])
  have kth: "snd (snd (Execute ?cb tk fn w')) = snd (fn w')"
    using last [of w'] by auto
  have fc: "failureCount ?cb = failureCount cb + int (length xs)" using run by blast
  have se: "settings ?cb = settings cb" using run by blast
  have reach: "failureCount ?cb + 1 \<ge> MaxFailures (settings ?cb)"
    unfolding fc se using assms(2,3,6) by simp
  have "state (onFailure ?cb (t_fail tk)) = StateOpen"
    by (simp only: onFailure_reaches [OF reach]) simp
  with last [of "snd (Execute_all cb xs w)"]
  have opened: "state (fst (Execute_all cb (xs @ [(tk, fn)]) w)) = StateOpen"
    unfolding Execute_all_snoc by auto
  from last [of "snd (Execute_all cb xs w)"]
  have all: "snd (Execute_all cb (xs @ [(tk, fn)]) w) = invoke_all (xs @ [(tk, fn)]) w"
    unfolding Execute_all_snoc invoke_all_snoc inv by auto
  from closed inv kth opened all show ?thesis by blast
qed

theorem breaker_opens_after_exactly_k_failures_witness:
  "state (NewCircuitBreaker settings3) = StateClosed
   \<and> failureCount (NewCircuitBreaker settings3) = 0
   \<and> MaxFailures (settings (NewCircuitBreaker settings3)) = 3
   \<and> (3::int) \<ge> 1
   \<and> list_all (\<lambda>x. failing (snd x)) [(at_time 1, call_fails), (at_time 2, call_fails)]
   \<and> int (length [(at_time 1, call_fails), (at_time 2, call_fails)]) = 3 - 1
   \<and> failing call_fails
   \<and> state (fst (Execute_all (NewCircuitBreaker settings3)
                  [(at_time 1, call_fails), (at_time 2, call_fails)] 0)) = StateClosed
   \<and> snd (Execute_all (NewCircuitBreaker settings3)
            [(at_time 1, call_fails), (at_time 2, call_fails)] 0) = 2
   \<and> snd (snd (Execute (fst (Execute_all (NewCircuitBreaker settings3)
                              [(at_time 1, call_fails), (at_time 2, call_fails)] 0))
                 (at_time 3) call_fails 2)) = 3
   \<and> state (fst (Execute_all (NewCircuitBreaker settings3)
                  ([(at_time 1, call_fails), (at_time 2, call_fails)]
                   @ [(at_time 3, call_fails)]) 0)) = StateOpen
   \<and> snd (Execute_all (NewCircuitBreaker settings3)
            ([(at_time 1, call_fails), (at_time 2, call_fails)]
             @ [(at_time 3, call_fails)]) 0) = 3"
proof -
  let ?cb = "NewCircuitBreaker settings3"
  let ?xs = "[(at_time 1, call_fails), (at_time 2, call_fails)]"
  have h1: "state ?cb = StateClosed" by (simp add: NewCircuitBreaker_def)
  have h2: "failureCount ?cb = 0" by (simp add: NewCircuitBreaker_def)
  have h3: "MaxFailures (settings ?cb) = 3" by (simp add: NewCircuitBreaker_def settings3_def)
  have h4: "(3::int) \<ge> 1" by simp
  have f: "failing call_fails"
    by (simp add: failing_def executeWithTimeout_def call_fails_def)
  have h5: "list_all (\<lambda>x. failing (snd x)) ?xs" using f by simp
  have h6: "int (length ?xs) = 3 - 1" by simp
  have inv2: "invoke_all ?xs 0 = 2" by (simp add: call_fails_def)
  have inv3: "invoke_all (?xs @ [(at_time 3, call_fails)]) 0 = 3" by (simp add: call_fails_def)
  have c3: "snd (call_fails 2) = 3" by (simp add: call_fails_def)
  from breaker_opens_after_exactly_k_failures [OF h1 h2 h3 h4 h5 h6 f, of 0 "at_time 3" 2]
  show ?thesis using h1 h2 h3 h5 h6 f unfolding inv2 inv3 c3 by simp
qed

subsection \<open>An Open breaker waits for the reset timeout\<close>

lemma time_Since_mono: "t1 \<le> t2 \<Longrightarrow> time_Since t t1 \<le> time_Since t t2"
  by (simp add: time_Since_def Let_def maxDuration_def minDuration_def)

lemma getState_Open_waiting:
  assumes "state cb = StateOpen"
    and "\<not> time_Since (lastFailureTime cb) t1 > ResetTimeout (settings cb)"
  shows "getState cb t1 t2 = (StateOpen, cb)"
  using assms by (simp add: getState_def)

lemma getState_Open_elapsed:
  assumes "state cb = StateOpen"
    and "time_Since (lastFailureTime cb) t1 > ResetTimeout (settings cb)"
    and "t1 \<le> t2"
  shows "getState cb t1 t2 = (StateHalfOpen, cb\<lparr>state := StateHalfOpen, successCount := 0\<rparr>)"
proof -
  from time_Since_mono [OF assms(3), of "lastFailureTime cb"] assms(2)
  have "time_Since (lastFailureTime cb) t2 > ResetTimeout (settings cb)" by linarith
  with assms(1,2) show ?thesis by (simp add: getState_def)
qed

lemma snd_snd_executeHalfOpen: "snd (snd (executeHalfOpen cb now fn w)) = snd (fn w)"
  using snd_executeWithTimeout [of fn w]
  by (auto simp: executeHalfOpen_def split: prod.splits option.splits)

lemma snd_snd_executeClosed: "snd (snd (executeClosed cb now fn w)) = snd (fn w)"
  using snd_executeWithTimeout [of fn w]
  by (auto simp: executeClosed_def split: prod.splits option.splits)

text \<open>
  C3. While the breaker is Open: an execute whose clock reading shows that no more than
  \<open>ResetTimeout\<close> has passed since \<open>lastFailureTime\<close> returns the circuit-open error,
  leaves the breaker as it is and does not invoke the call. An execute that reads a
  later clock (the first one to do so finds the breaker unchanged) moves the breaker to
  HalfOpen with \<open>successCount = 0\<close> and then invokes the call as a half-open trial.
\<close>

theorem open_breaker_fails_fast_until_reset_timeout:
  assumes "state cb = StateOpen"
  shows "(\<not> time_Since (lastFailureTime cb) (t_check tk) > ResetTimeout (settings cb) \<longrightarrow>
            Execute cb tk fn w = (Some ''circuit breaker is open'', cb, w))
       \<and> (time_Since (lastFailureTime cb) (t_check tk) > ResetTimeout (settings cb)
            \<and> t_check tk \<le> t_recheck tk \<longrightarrow>
            getState cb (t_check tk) (t_recheck tk)
              = (StateHalfOpen, cb\<lparr>state := StateHalfOpen, successCount := 0\<rparr>)
            \<and> Execute cb tk fn w
              = executeHalfOpen (cb\<lparr>state := StateHalfOpen, successCount := 0\<rparr>) (t_fail tk) fn w
            \<and> snd (snd (Execute cb tk fn w)) = snd (fn w))"
proof (intro conjI impI)
  assume "\<not> time_Since (lastFailureTime cb) (t_check tk) > ResetTimeout (settings cb)"
  from getState_Open_waiting [OF assms this]
  show "Execute cb tk fn w = (Some ''circuit breaker is open'', cb, w)"
    by (simp add: Execute_def errCircuitOpen_def)
next
  assume a: "time_Since (lastFailureTime cb) (t_check tk) > ResetTimeout (settings cb)
            \<and> t_check tk \<le> t_recheck tk"
  then have g: "getState cb (t_check tk) (t_recheck tk)
              = (StateHalfOpen, cb\<lparr>state := StateHalfOpen, successCount := 0\<rparr>)"
    using getState_Open_elapsed [OF assms] by blast
  show "getState cb (t_check tk) (t_recheck tk)
              = (StateHalfOpen, cb\<lparr>state := StateHalfOpen, successCount := 0\<rparr>)" by (rule g)
  show e: "Execute cb tk fn w
              = executeHalfOpen (cb\<lparr>state := StateHalfOpen, successCount := 0\<rparr>) (t_fail tk) fn w"
    by (simp add: Execute_def g)
  show "snd (snd (Execute cb tk fn w)) = snd (fn w)"
    unfolding e by (rule snd_snd_executeHalfOpen)
qed

theorem open_breaker_fails_fast_until_reset_timeout_witness:
  "state open1 = StateOpen
   \<and> Execute open1 (at_time (15 * second)) call_ok 0 = (Some ''circuit breaker is open'', open1, 0)
   \<and> getState open1 (15 * second + 1) (15 * second + 1)
       = (StateHalfOpen, open1\<lparr>state := StateHalfOpen, successCount := 0\<rparr>)
   \<and> snd (snd (Execute open1 (at_time (15 * second + 1)) call_ok 0)) = 1"
proof -
  have h: "state open1 = StateOpen" by (simp add: open1_def)
  have w: "\<not> time_Since (lastFailureTime open1) (t_check (at_time (15 * second)))
              > ResetTimeout (settings open1)"
    by (simp add: open1_def settings1_def at_time_def time_Since_def second_def
          maxDuration_def minDuration_def)
  have e: "time_Since (lastFailureTime open1) (t_check (at_time (15 * second + 1)))
              > ResetTimeout (settings open1)
           \<and> t_check (at_time (15 * second + 1)) \<le> t_recheck (at_time (15 * second + 1))"
    by (simp add: open1_def settings1_def at_time_def time_Since_def second_def
          maxDuration_def minDuration_def)
  have c: "snd (call_ok 0) = 1" by (simp add: call_ok_def)
  have t: "t_check (at_time x) = x" "t_recheck (at_time x) = x" for x
    by (simp_all add: at_time_def)
  from open_breaker_fails_fast_until_reset_timeout [OF h, of "at_time (15 * second)" call_ok 0] w
  have 1: "Execute open1 (at_time (15 * second)) call_ok 0 = (Some ''circuit breaker is open'', open1, 0)"
    by blast
  from open_breaker_fails_fast_until_reset_timeout [OF h, of "at_time (15 * second + 1)" call_ok 0] e
  have 2: "getState open1 (15 * second + 1) (15 * second + 1)
       = (StateHalfOpen, open1\<lparr>state := StateHalfOpen, successCount := 0\<rparr>)
      \<and> snd (snd (Execute open1 (at_time (15 * second + 1)) call_ok 0)) = 1"
    unfolding t c by blast
  from h 1 2 show ?thesis by blast
qed

subsection \<open>The counters in reachable states\<close>

lemma settings_apply_op: "settings (apply_op cb op) = settings cb"
  by (cases op) (simp_all add: getState_def onSuccess_def onFailure_def Let_def)

lemma settings_apply_ops: "settings (apply_ops cb ops) = settings cb"
  unfolding apply_ops_def
  by (induction ops arbitrary: cb) (simp_all add: settings_apply_op)

lemma breaker_inv_apply_op: "breaker_inv cb \<Longrightarrow> breaker_inv (apply_op cb op)"
  by (cases op) (auto simp: breaker_inv_def getState_def onSuccess_def onFailure_def Let_def)

lemma breaker_inv_apply_ops: "breaker_inv cb \<Longrightarrow> breaker_inv (apply_ops cb ops)"
  unfolding apply_ops_def
  by (induction ops arbitrary: cb) (simp_all add: breaker_inv_apply_op)

lemma breaker_inv_New: "breaker_inv (NewCircuitBreaker s)"
  by (simp add: breaker_inv_def NewCircuitBreaker_def)

lemma breaker_inv_reachable: "breaker_inv (apply_ops (NewCircuitBreaker s) ops)"
  by (rule breaker_inv_apply_ops [OF breaker_inv_New])

text \<open>Every run of executes is a sequence of operations, so what holds after every
  sequence of operations holds after every run.\<close>

lemma Execute_as_ops:
  "fst (snd (Execute cb tk fn w)) = apply_ops cb (ops_of_Execute cb tk fn w)"
  by (cases "getState cb (t_check tk) (t_recheck tk)")
     (auto simp: Execute_def ops_of_Execute_def apply_ops_def executeClosed_def
        executeHalfOpen_def getState_def Let_def
        split: CircuitBreakerState.splits prod.splits option.splits if_splits)

lemma apply_ops_append: "apply_ops cb (xs @ ys) = apply_ops (apply_ops cb xs) ys"
  by (simp add: apply_ops_def)

lemma Execute_all_as_ops: "fst (Execute_all cb xs w) = apply_ops cb (ops_of_run cb xs w)"
proof (induction xs arbitrary: cb w)
  case Nil
  show ?case by (simp add: apply_ops_def)
next
  case (Cons x xs)
  obtain tk fn where x: "x = (tk, fn)" by (cases x)
  show ?case
    unfolding x
    by (simp add: apply_ops_append Execute_as_ops [symmetric] Cons.IH split: prod.splits)
qed

subsection \<open>Trials of a HalfOpen breaker\<close>

lemma Execute_HalfOpen_succeeding:
  assumes "state cb = StateHalfOpen" and "succeeding fn"
  shows "Execute cb tk fn w = (None, onSuccess cb, snd (fn w))"
proof -
  obtain r w' where r: "executeWithTimeout fn w = (r, w')"
    by (cases "executeWithTimeout fn w")
  with assms(2) have e: "r = None"
    by (auto simp: succeeding_def dest: spec [of _ w])
  from r have w': "w' = snd (fn w)"
    using snd_executeWithTimeout [of fn w] by simp
  show ?thesis
    using assms(1) r e w'
    by (simp add: Execute_def getState_not_Open executeHalfOpen_def)
qed

lemma Execute_HalfOpen_failing:
  assumes "state cb = StateHalfOpen" and "failing fn"
  shows "\<exists>e. Execute cb tk fn w = (Some e, onFailure cb (t_fail tk), snd (fn w))"
proof -
  obtain r w' where r: "executeWithTimeout fn w = (r, w')"
    by (cases "executeWithTimeout fn w")
  with assms(2) obtain e where e: "r = Some e"
    by (auto simp: failing_def dest: spec [of _ w])
  from r have w': "w' = snd (fn w)"
    using snd_executeWithTimeout [of fn w] by simp
  show ?thesis
    using assms(1) r e w'
    by (simp add: Execute_def getState_not_Open executeHalfOpen_def)
qed

lemma onSuccess_HalfOpen_below:
  assumes "state cb = StateHalfOpen" and "successCount cb + 1 < SuccessThreshold (settings cb)"
  shows "onSuccess cb = cb\<lparr>successCount := successCount cb + 1\<rparr>"
  using assms by (simp add: onSuccess_def Let_def)

lemma onSuccess_HalfOpen_reaches:
  assumes "state cb = StateHalfOpen" and "successCount cb + 1 \<ge> SuccessThreshold (settings cb)"
  shows "onSuccess cb = cb\<lparr>successCount := 0, state := StateClosed, failureCount := 0\<rparr>"
  using assms by (simp add: onSuccess_def Let_def)

lemma Execute_all_succeeding_below:
  assumes "state cb = StateHalfOpen"
    and "list_all (\<lambda>x. succeeding (snd x)) xs"
    and "successCount cb + int (length xs) < SuccessThreshold (settings cb)"
  shows "state (fst (Execute_all cb xs w)) = StateHalfOpen
         \<and> successCount (fst (Execute_all cb xs w)) = successCount cb + int (length xs)
         \<and> settings (fst (Execute_all cb xs w)) = settings cb
         \<and> snd (Execute_all cb xs w) = invoke_all xs w"
  using assms
proof (induction xs arbitrary: cb w)
  case Nil
  then show ?case by simp
next
  case (Cons x xs)
  obtain tk fn where x: "x = (tk, fn)" by (cases x)
  from Cons.prems x have f: "succeeding fn" by simp
  note ex = Execute_HalfOpen_succeeding [OF Cons.prems(1) f, of tk w]
  let ?cb = "onSuccess cb"
  from Cons.prems(3) have below: "successCount cb + 1 < SuccessThreshold (settings cb)"
    by simp
  have cb': "?cb = cb\<lparr>successCount := successCount cb + 1\<rparr>"
    by (rule onSuccess_HalfOpen_below [OF Cons.prems(1) below])
  have st: "state ?cb = StateHalfOpen" using Cons.prems(1) by (simp add: cb')
  have rest: "list_all (\<lambda>x. succeeding (snd x)) xs" using Cons.prems(2) by simp
  have cnt: "successCount ?cb + int (length xs) < SuccessThreshold (settings ?cb)"
    using Cons.prems(3) by (simp add: cb')
  have step: "Execute_all cb (x # xs) w = Execute_all ?cb xs (snd (fn w))"
    unfolding x by (simp add: ex)
  have sc: "successCount ?cb = successCount cb + 1" by (simp add: cb')
  have se: "settings ?cb = settings cb" by (simp add: cb')
  from Cons.IH [OF st rest cnt, of "snd (fn w)"]
  show ?case
    unfolding step sc se by (simp add: x)
qed

text \<open>
  C4, as the code has it. A breaker that has entered HalfOpen (\<open>successCount = 0\<close>) with
  \<open>SuccessThreshold = s\<close>, \<open>s \<ge> 1\<close>: after \<open>s - 1\<close> successful executes it is still
  HalfOpen, and the \<open>s\<close>-th makes it Closed with both counters 0; every call is invoked.
  A failed execute on a HalfOpen breaker in any state reachable from a new one invokes
  the call, makes the state Open, records \<open>lastFailureTime\<close> and adds one to
  \<open>failureCount\<close>; \<open>successCount\<close> keeps its value (it is set to 0 by the later
  Open-to-HalfOpen step).
\<close>

theorem halfopen_trial_outcomes:
  "(state cb = StateHalfOpen \<and> successCount cb = 0 \<and> SuccessThreshold (settings cb) = s
      \<and> s \<ge> 1 \<and> list_all (\<lambda>x. succeeding (snd x)) xs \<and> int (length xs) = s - 1
      \<and> succeeding fn \<longrightarrow>
      state (fst (Execute_all cb xs w)) = StateHalfOpen
      \<and> state (fst (Execute_all cb (xs @ [(tk, fn)]) w)) = StateClosed
      \<and> failureCount (fst (Execute_all cb (xs @ [(tk, fn)]) w)) = 0
      \<and> successCount (fst (Execute_all cb (xs @ [(tk, fn)]) w)) = 0
      \<and> snd (Execute_all cb (xs @ [(tk, fn)]) w) = invoke_all (xs @ [(tk, fn)]) w)
   \<and> (cb2 = apply_ops (NewCircuitBreaker s0) ops \<and> state cb2 = StateHalfOpen \<and> failing fn2 \<longrightarrow>
      state (fst (snd (Execute cb2 tk2 fn2 w2))) = StateOpen
      \<and> lastFailureTime (fst (snd (Execute cb2 tk2 fn2 w2))) = t_fail tk2
      \<and> successCount (fst (snd (Execute cb2 tk2 fn2 w2))) = successCount cb2
      \<and> failureCount (fst (snd (Execute cb2 tk2 fn2 w2))) = failureCount cb2 + 1
      \<and> snd (snd (Execute cb2 tk2 fn2 w2)) = snd (fn2 w2))"
proof (intro conjI impI)
  assume a: "state cb = StateHalfOpen \<and> successCount cb = 0 \<and> SuccessThreshold (settings cb) = s
      \<and> s \<ge> 1 \<and> list_all (\<lambda>x. succeeding (snd x)) xs \<and> int (length xs) = s - 1
      \<and> succeeding fn"
  let ?cb = "fst (Execute_all cb xs w)"
  from a have st: "state cb = StateHalfOpen" and xs: "list_all (\<lambda>x. succeeding (snd x)) xs"
    and fn: "succeeding fn" by blast+
  from a have below: "successCount cb + int (length xs) < SuccessThreshold (settings cb)"
    by simp
  note run = Execute_all_succeeding_below [OF st xs below, of w]
  show half: "state ?cb = StateHalfOpen" using run by blast
  have inv: "snd (Execute_all cb xs w) = invoke_all xs w" using run by blast
  have sc: "successCount ?cb = successCount cb + int (length xs)" using run by blast
  have se: "settings ?cb = settings cb" using run by blast
  have reach: "successCount ?cb + 1 \<ge> SuccessThreshold (settings ?cb)"
    unfolding sc se using a by simp
  note last = Execute_HalfOpen_succeeding [OF half fn, of tk "snd (Execute_all cb xs w)"]
  have fin: "fst (Execute_all cb (xs @ [(tk, fn)]) w) = onSuccess ?cb"
    unfolding Execute_all_snoc last by simp
  show "state (fst (Execute_all cb (xs @ [(tk, fn)]) w)) = StateClosed"
    unfolding fin by (simp only: onSuccess_HalfOpen_reaches [OF half reach]) simp
  show "failureCount (fst (Execute_all cb (xs @ [(tk, fn)]) w)) = 0"
    unfolding fin by (simp only: onSuccess_HalfOpen_reaches [OF half reach]) simp
  show "successCount (fst (Execute_all cb (xs @ [(tk, fn)]) w)) = 0"
    unfolding fin by (simp only: onSuccess_HalfOpen_reaches [OF half reach]) simp
  show "snd (Execute_all cb (xs @ [(tk, fn)]) w) = invoke_all (xs @ [(tk, fn)]) w"
    by (simp add: Execute_all_snoc invoke_all_snoc inv
          Execute_HalfOpen_succeeding [OF half fn, of tk "invoke_all xs w"])
next
  assume b: "cb2 = apply_ops (NewCircuitBreaker s0) ops \<and> state cb2 = StateHalfOpen \<and> failing fn2"
  then have inv: "breaker_inv cb2" using breaker_inv_reachable by blast
  from b have st: "state cb2 = StateHalfOpen" and fn: "failing fn2" by blast+
  from inv st have reach: "failureCount cb2 + 1 \<ge> MaxFailures (settings cb2)"
    by (simp add: breaker_inv_def)
  from Execute_HalfOpen_failing [OF st fn, of tk2 w2]
  obtain e where e: "Execute cb2 tk2 fn2 w2 = (Some e, onFailure cb2 (t_fail tk2), snd (fn2 w2))"
    by blast
  show "state (fst (snd (Execute cb2 tk2 fn2 w2))) = StateOpen"
    unfolding e by (simp add: onFailure_reaches [OF reach])
  show "lastFailureTime (fst (snd (Execute cb2 tk2 fn2 w2))) = t_fail tk2"
    unfolding e by (simp add: onFailure_reaches [OF reach])
  show "successCount (fst (snd (Execute cb2 tk2 fn2 w2))) = successCount cb2"
    unfolding e by (simp add: onFailure_reaches [OF reach])
  show "failureCount (fst (snd (Execute cb2 tk2 fn2 w2))) = failureCount cb2 + 1"
    unfolding e by (simp add: onFailure_reaches [OF reach])
  show "snd (snd (Execute cb2 tk2 fn2 w2)) = snd (fn2 w2)"
    unfolding e by simp
qed

theorem halfopen_trial_outcomes_witness:
  "state halfopen0 = StateHalfOpen \<and> successCount halfopen0 = 0
   \<and> SuccessThreshold (settings halfopen0) = 2 \<and> (2::int) \<ge> 1
   \<and> list_all (\<lambda>x. succeeding (snd x)) [(at_time (20 * second), call_ok)]
   \<and> int (length [(at_time (20 * second), call_ok)]) = 2 - 1
   \<and> succeeding call_ok
   \<and> state (fst (Execute_all halfopen0 [(at_time (20 * second), call_ok)] 0)) = StateHalfOpen
   \<and> state (fst (Execute_all halfopen0
        ([(at_time (20 * second), call_ok)] @ [(at_time (21 * second), call_ok)]) 0)) = StateClosed
   \<and> failureCount (fst (Execute_all halfopen0
        ([(at_time (20 * second), call_ok)] @ [(at_time (21 * second), call_ok)]) 0)) = 0
   \<and> successCount (fst (Execute_all halfopen0
        ([(at_time (20 * second), call_ok)] @ [(at_time (21 * second), call_ok)]) 0)) = 0
   \<and> snd (Execute_all halfopen0
        ([(at_time (20 * second), call_ok)] @ [(at_time (21 * second), call_ok)]) 0) = 2
   \<and> state (apply_ops (NewCircuitBreaker settings1)
        [Failure (5 * second), TimeoutCheck (20 * second) (20 * second), Success]) = StateHalfOpen
   \<and> failing call_fails
   \<and> state (fst (snd (Execute (apply_ops (NewCircuitBreaker settings1)
        [Failure (5 * second), TimeoutCheck (20 * second) (20 * second), Success])
        (at_time (21 * second)) call_fails 0))) = StateOpen
   \<and> lastFailureTime (fst (snd (Execute (apply_ops (NewCircuitBreaker settings1)
        [Failure (5 * second), TimeoutCheck (20 * second) (20 * second), Success])
        (at_time (21 * second)) call_fails 0))) = 21 * second
   \<and> successCount (fst (snd (Execute (apply_ops (NewCircuitBreaker settings1)
        [Failure (5 * second), TimeoutCheck (20 * second) (20 * second), Success])
        (at_time (21 * second)) call_fails 0))) = 1
   \<and> snd (snd (Execute (apply_ops (NewCircuitBreaker settings1)
        [Failure (5 * second), TimeoutCheck (20 * second) (20 * second), Success])
        (at_time (21 * second)) call_fails 0)) = 1"
proof -
  let ?xs = "[(at_time (20 * second), call_ok)]"
  let ?ops = "[Failure (5 * second), TimeoutCheck (20 * second) (20 * second), Success]"
  let ?cb2 = "apply_ops (NewCircuitBreaker settings1) ?ops"
  have ok: "succeeding call_ok"
    by (simp add: succeeding_def executeWithTimeout_def call_ok_def)
  have bad: "failing call_fails"
    by (simp add: failing_def executeWithTimeout_def call_fails_def)
  have a: "state halfopen0 = StateHalfOpen \<and> successCount halfopen0 = 0
      \<and> SuccessThreshold (settings halfopen0) = 2 \<and> (2::int) \<ge> 1
      \<and> list_all (\<lambda>x. succeeding (snd x)) ?xs \<and> int (length ?xs) = 2 - 1
      \<and> succeeding call_ok"
    using ok by (simp add: halfopen0_def settings1_def)
  have cb2: "?cb2 = halfopen1"
    by (simp add: apply_ops_def NewCircuitBreaker_def settings1_def onFailure_def onSuccess_def
          getState_def time_Since_def second_def maxDuration_def minDuration_def halfopen1_def)
  have b: "?cb2 = apply_ops (NewCircuitBreaker settings1) ?ops \<and> state ?cb2 = StateHalfOpen
           \<and> failing call_fails"
    using bad unfolding cb2 by (simp add: halfopen1_def)
  have inv: "invoke_all (?xs @ [(at_time (21 * second), call_ok)]) 0 = 2"
    by (simp add: call_ok_def)
  have c: "snd (call_fails 0) = 1" by (simp add: call_fails_def)
  have t: "t_fail (at_time (21 * second)) = 21 * second" by (simp add: at_time_def)
  have sc: "successCount ?cb2 = 1" unfolding cb2 by (simp add: halfopen1_def)
  from halfopen_trial_outcomes [of halfopen0 2 ?xs call_ok 0 "at_time (21 * second)"
      ?cb2 settings1 ?ops call_fails "at_time (21 * second)" 0] a b
  show ?thesis unfolding inv c t sc by blast
qed

lemmas run_defs = NewCircuitBreaker_def settings1_def onFailure_def onSuccess_def
  getState_def time_Since_def second_def maxDuration_def minDuration_def
  Execute_def executeClosed_def executeHalfOpen_def executeWithTimeout_def
  call_fails_def call_ok_def at_time_def

text \<open>
  C4 as stated fails in its last part: one failure, a wait, one successful trial and one
  failed trial leave the breaker Open with \<open>successCount = 1\<close>.
\<close>

theorem halfopen_failure_keeps_successCount:
  "state (fst (Execute_all (NewCircuitBreaker settings1)
                 [(at_time (5 * second), call_fails), (at_time (20 * second), call_ok)] 0))
     = StateHalfOpen
   \<and> successCount (fst (Execute_all (NewCircuitBreaker settings1)
                 [(at_time (5 * second), call_fails), (at_time (20 * second), call_ok)] 0)) = 1
   \<and> state (fst (Execute_all (NewCircuitBreaker settings1)
                 [(at_time (5 * second), call_fails), (at_time (20 * second), call_ok),
                  (at_time (21 * second), call_fails)] 0))
     = StateOpen
   \<and> successCount (fst (Execute_all (NewCircuitBreaker settings1)
                 [(at_time (5 * second), call_fails), (at_time (20 * second), call_ok),
                  (at_time (21 * second), call_fails)] 0)) \<noteq> 0"
  by (simp add: run_defs)

subsection \<open>What a change of state does to the counters\<close>

text \<open>
  C5, as the code has it. Whatever operation changes the state of a breaker:
  HalfOpen to Closed sets both counters to 0; Open to HalfOpen sets \<open>successCount\<close> to 0
  and keeps \<open>failureCount\<close>; a change to Open (from Closed or from HalfOpen) adds one to
  \<open>failureCount\<close> and keeps \<open>successCount\<close>. No operation leads from Closed to HalfOpen
  or from Open to Closed.
\<close>

theorem counters_on_state_changes:
  "(state cb = StateHalfOpen \<and> state (apply_op cb op) = StateClosed \<longrightarrow>
      failureCount (apply_op cb op) = 0 \<and> successCount (apply_op cb op) = 0)
   \<and> (state cb = StateOpen \<and> state (apply_op cb op) = StateHalfOpen \<longrightarrow>
      successCount (apply_op cb op) = 0 \<and> failureCount (apply_op cb op) = failureCount cb)
   \<and> (state cb \<noteq> StateOpen \<and> state (apply_op cb op) = StateOpen \<longrightarrow>
      failureCount (apply_op cb op) = failureCount cb + 1
      \<and> successCount (apply_op cb op) = successCount cb)
   \<and> \<not> (state cb = StateClosed \<and> state (apply_op cb op) = StateHalfOpen)
   \<and> \<not> (state cb = StateOpen \<and> state (apply_op cb op) = StateClosed)"
  by (cases op) (auto simp: getState_def onSuccess_def onFailure_def Let_def split: if_splits)

theorem counters_on_state_changes_witness:
  "state halfopen1 = StateHalfOpen \<and> state (apply_op halfopen1 Success) = StateClosed
   \<and> failureCount (apply_op halfopen1 Success) = 0
   \<and> successCount (apply_op halfopen1 Success) = 0
   \<and> state open1 = StateOpen
   \<and> state (apply_op open1 (TimeoutCheck (20 * second) (20 * second))) = StateHalfOpen
   \<and> successCount (apply_op open1 (TimeoutCheck (20 * second) (20 * second))) = 0
   \<and> failureCount (apply_op open1 (TimeoutCheck (20 * second) (20 * second))) = failureCount open1
   \<and> state halfopen1 \<noteq> StateOpen \<and> state (apply_op halfopen1 (Failure (21 * second))) = StateOpen
   \<and> failureCount (apply_op halfopen1 (Failure (21 * second))) = failureCount halfopen1 + 1
   \<and> successCount (apply_op halfopen1 (Failure (21 * second))) = successCount halfopen1"
proof -
  have a: "state halfopen1 = StateHalfOpen \<and> state (apply_op halfopen1 Success) = StateClosed"
    by (simp add: halfopen1_def settings1_def onSuccess_def)
  have b: "state open1 = StateOpen
           \<and> state (apply_op open1 (TimeoutCheck (20 * second) (20 * second))) = StateHalfOpen"
    by (simp add: open1_def settings1_def getState_def time_Since_def second_def
          maxDuration_def minDuration_def)
  have c: "state halfopen1 \<noteq> StateOpen
           \<and> state (apply_op halfopen1 (Failure (21 * second))) = StateOpen"
    by (simp add: halfopen1_def settings1_def onFailure_def)
  from a counters_on_state_changes [of halfopen1 Success]
  have a': "failureCount (apply_op halfopen1 Success) = 0
            \<and> successCount (apply_op halfopen1 Success) = 0" by blast
  from b counters_on_state_changes [of open1 "TimeoutCheck (20 * second) (20 * second)"]
  have b': "successCount (apply_op open1 (TimeoutCheck (20 * second) (20 * second))) = 0
     \<and> failureCount (apply_op open1 (TimeoutCheck (20 * second) (20 * second))) = failureCount open1"
    by blast
  from c counters_on_state_changes [of halfopen1 "Failure (21 * second)"]
  have c': "failureCount (apply_op halfopen1 (Failure (21 * second))) = failureCount halfopen1 + 1
   \<and> successCount (apply_op halfopen1 (Failure (21 * second))) = successCount halfopen1"
    by blast
  from a a' b b' c c' show ?thesis by blast
qed

text \<open>
  C5 as stated fails: with \<open>MaxFailures = 1\<close> the first failure changes the state from
  Closed to Open and leaves \<open>failureCount\<close> at 1.
\<close>

theorem counters_not_reset_on_opening:
  "state (NewCircuitBreaker settings1) = StateClosed
   \<and> state (apply_op (NewCircuitBreaker settings1) (Failure 5)) = StateOpen
   \<and> failureCount (apply_op (NewCircuitBreaker settings1) (Failure 5)) = 1"
  by (simp add: NewCircuitBreaker_def settings1_def onFailure_def)

subsection \<open>The failure count keeps an open circuit open\<close>

text \<open>
  C10, as the code has it. In every state reached from a new breaker by any sequence of
  outcomes and open-timeout checks: if the state is Open or HalfOpen then
  \<open>failureCount \<ge> MaxFailures\<close> (whatever \<open>MaxFailures\<close> is); an operation that brings
  a non-zero \<open>failureCount\<close> to 0 is a recorded success, either the one that closes a
  HalfOpen breaker or one recorded while the breaker is Closed; and a failure recorded
  in HalfOpen re-opens the breaker.
\<close>

theorem failureCount_guards_reopening:
  assumes "cb = apply_ops (NewCircuitBreaker s) ops"
  shows "(state cb = StateOpen \<or> state cb = StateHalfOpen \<longrightarrow> failureCount cb \<ge> MaxFailures s)
       \<and> (failureCount cb \<noteq> 0 \<and> failureCount (apply_op cb op) = 0 \<longrightarrow>
            op = Success \<and> state (apply_op cb op) = StateClosed
            \<and> (state cb = StateHalfOpen \<or> state cb = StateClosed))
       \<and> (state cb = StateHalfOpen \<longrightarrow> state (apply_op cb (Failure now)) = StateOpen)"
proof -
  have inv: "breaker_inv cb" unfolding assms by (rule breaker_inv_reachable)
  have se: "settings cb = s"
    unfolding assms by (simp add: settings_apply_ops NewCircuitBreaker_def)
  have 1: "state cb = StateOpen \<or> state cb = StateHalfOpen \<longrightarrow> failureCount cb \<ge> MaxFailures s"
    using inv se by (auto simp: breaker_inv_def)
  have 2: "failureCount cb \<noteq> 0 \<and> failureCount (apply_op cb op) = 0 \<longrightarrow>
            op = Success \<and> state (apply_op cb op) = StateClosed
            \<and> (state cb = StateHalfOpen \<or> state cb = StateClosed)"
    using inv
    by (cases op)
       (auto simp: breaker_inv_def getState_def onSuccess_def onFailure_def Let_def
          split: if_splits)
  have 3: "state cb = StateHalfOpen \<longrightarrow> state (apply_op cb (Failure now)) = StateOpen"
    using inv by (auto simp: breaker_inv_def onFailure_def Let_def)
  from 1 2 3 show ?thesis by blast
qed

theorem failureCount_guards_reopening_witness:
  "state (apply_ops (NewCircuitBreaker settings1)
            [Failure (5 * second), TimeoutCheck (20 * second) (20 * second), Success]) = StateHalfOpen
   \<and> failureCount (apply_ops (NewCircuitBreaker settings1)
            [Failure (5 * second), TimeoutCheck (20 * second) (20 * second), Success])
        \<ge> MaxFailures settings1
   \<and> failureCount (apply_ops (NewCircuitBreaker settings1)
            [Failure (5 * second), TimeoutCheck (20 * second) (20 * second), Success]) \<noteq> 0
   \<and> failureCount (apply_op (apply_ops (NewCircuitBreaker settings1)
            [Failure (5 * second), TimeoutCheck (20 * second) (20 * second), Success]) Success) = 0
   \<and> state (apply_op (apply_ops (NewCircuitBreaker settings1)
            [Failure (5 * second), TimeoutCheck (20 * second) (20 * second), Success]) Success)
        = StateClosed
   \<and> state (apply_op (apply_ops (NewCircuitBreaker settings1)
            [Failure (5 * second), TimeoutCheck (20 * second) (20 * second), Success])
            (Failure (21 * second))) = StateOpen"
proof -
  let ?cb = "apply_ops (NewCircuitBreaker settings1)
            [Failure (5 * second), TimeoutCheck (20 * second) (20 * second), Success]"
  have cb: "?cb = halfopen1"
    by (simp add: apply_ops_def NewCircuitBreaker_def settings1_def onFailure_def onSuccess_def
          getState_def time_Since_def second_def maxDuration_def minDuration_def halfopen1_def)
  have st: "state ?cb = StateHalfOpen" unfolding cb by (simp add: halfopen1_def)
  have nz: "failureCount ?cb \<noteq> 0" unfolding cb by (simp add: halfopen1_def)
  have z: "failureCount (apply_op ?cb Success) = 0"
    unfolding cb by (simp add: halfopen1_def settings1_def onSuccess_def)
  from failureCount_guards_reopening [OF refl, of settings1
      "[Failure (5 * second), TimeoutCheck (20 * second) (20 * second), Success]"
      Success "21 * second"] st nz z
  show ?thesis by blast
qed

text \<open>
  C10 as stated fails in its middle part: a success recorded while the breaker is Closed
  resets \<open>failureCount\<close> from 1 to 0, with no HalfOpen-to-Closed transition.
\<close>

theorem failureCount_reset_while_closed:
  "failureCount (apply_ops (NewCircuitBreaker settings3) [Failure 1]) = 1
   \<and> state (apply_ops (NewCircuitBreaker settings3) [Failure 1]) = StateClosed
   \<and> failureCount (apply_op (apply_ops (NewCircuitBreaker settings3) [Failure 1]) Success) = 0
   \<and> state (apply_op (apply_ops (NewCircuitBreaker settings3) [Failure 1]) Success) = StateClosed"
  by (simp add: apply_ops_def NewCircuitBreaker_def settings3_def onFailure_def onSuccess_def)

subsection \<open>Executes that interleave\<close>

text \<open>Whatever the interleaving, the breaker stays within what sequences of operations
  reach: the invariant of the counters holds after every schedule.\<close>

lemma critical_section_inv: "breaker_inv cb \<Longrightarrow> breaker_inv (fst (critical_section cb x))"
proof -
  assume inv: "breaker_inv cb"
  have up: "(if state cb = StateOpen \<and> time_Since (lastFailureTime cb) t > ResetTimeout (settings cb)
             then cb\<lparr>state := StateHalfOpen, successCount := 0\<rparr> else cb)
            = apply_op cb (TimeoutCheck t t)" for t
    by (simp add: getState_def)
  show ?thesis
    using inv breaker_inv_apply_op [of cb "TimeoutCheck t t" for t]
      breaker_inv_apply_op [of cb Success] breaker_inv_apply_op [of cb "Failure t" for t]
    unfolding critical_section_def up
    by (auto split: pc.splits CircuitBreakerState.splits option.splits)
qed

lemma run_inv: "breaker_inv cb \<Longrightarrow> breaker_inv (fst (run (cb, xs) schedule))"
proof (induction schedule arbitrary: cb xs)
  case Nil
  then show ?case by simp
next
  case (Cons i schedule)
  show ?case
  proof (cases "i < length xs")
    case True
    obtain cb' x' where c: "critical_section cb (xs ! i) = (cb', x')"
      by (cases "critical_section cb (xs ! i)")
    from critical_section_inv [OF Cons.prems, of "xs ! i"] c have "breaker_inv cb'" by simp
    from Cons.IH [OF this] show ?thesis using True c by simp
  next
    case False
    with Cons show ?thesis by simp
  qed
qed

text \<open>An execute that runs alone does what \<open>Execute\<close> does.\<close>

lemma alone_is_Execute:
  "fst (run (cb, [new_execution tk (fst (executeWithTimeout fn w))]) [0, 0, 0, 0])
     = fst (snd (Execute cb tk fn w))
   \<and> map ex_pc (snd (run (cb, [new_execution tk (fst (executeWithTimeout fn w))]) [0, 0, 0, 0]))
     = [Returned (fst (Execute cb tk fn w))]"
  by (cases "executeWithTimeout fn w"; cases "state cb")
     (auto simp: new_execution_def critical_section_def Execute_def getState_def
        executeClosed_def executeHalfOpen_def Let_def
        split: option.splits)


text \<open>
  C9, as the code has it. With executes interleaved at their critical sections: a
  section changes the state of the breaker only in one of three ways, each under a guard
  that holds of the breaker as that very section finds it (the write-locked re-check of
  \<open>getState\<close>: Open and due, to HalfOpen; \<open>onSuccess\<close>: HalfOpen with the threshold
  reached, to Closed; \<open>onFailure\<close>: the failure count reaching \<open>MaxFailures\<close>, to Open).
  What a section does to the breaker does not depend on the states the execute has read
  before, nor on whether \<open>getState\<close> returned Closed or HalfOpen; an execute to which
  \<open>getState\<close> returned Open records nothing.
\<close>

theorem transitions_decided_under_the_lock:
  "(state (fst (critical_section cb x)) \<noteq> state cb \<longrightarrow>
      (ex_pc x = AtUpgrade \<and> state cb = StateOpen
         \<and> time_Since (lastFailureTime cb) (t_recheck (ex_ticks x)) > ResetTimeout (settings cb)
         \<and> fst (critical_section cb x) = cb\<lparr>state := StateHalfOpen, successCount := 0\<rparr>)
      \<or> ((ex_pc x = AfterGetState StateClosed \<or> ex_pc x = AfterGetState StateHalfOpen)
         \<and> ex_outcome x = None \<and> state cb = StateHalfOpen
         \<and> successCount cb + 1 \<ge> SuccessThreshold (settings cb)
         \<and> fst (critical_section cb x) = onSuccess cb
         \<and> state (onSuccess cb) = StateClosed)
      \<or> ((ex_pc x = AfterGetState StateClosed \<or> ex_pc x = AfterGetState StateHalfOpen)
         \<and> ex_outcome x \<noteq> None
         \<and> failureCount cb + 1 \<ge> MaxFailures (settings cb)
         \<and> fst (critical_section cb x) = onFailure cb (t_fail (ex_ticks x))
         \<and> state (onFailure cb (t_fail (ex_ticks x))) = StateOpen))
   \<and> fst (critical_section cb (x\<lparr>ex_reads := reads\<rparr>)) = fst (critical_section cb x)
   \<and> fst (critical_section cb (x\<lparr>ex_pc := AfterGetState StateClosed\<rparr>))
       = fst (critical_section cb (x\<lparr>ex_pc := AfterGetState StateHalfOpen\<rparr>))
   \<and> fst (critical_section cb (x\<lparr>ex_pc := AfterGetState StateOpen\<rparr>)) = cb"
proof (intro conjI impI)
  assume ch: "state (fst (critical_section cb x)) \<noteq> state cb"
  show "(ex_pc x = AtUpgrade \<and> state cb = StateOpen
         \<and> time_Since (lastFailureTime cb) (t_recheck (ex_ticks x)) > ResetTimeout (settings cb)
         \<and> fst (critical_section cb x) = cb\<lparr>state := StateHalfOpen, successCount := 0\<rparr>)
      \<or> ((ex_pc x = AfterGetState StateClosed \<or> ex_pc x = AfterGetState StateHalfOpen)
         \<and> ex_outcome x = None \<and> state cb = StateHalfOpen
         \<and> successCount cb + 1 \<ge> SuccessThreshold (settings cb)
         \<and> fst (critical_section cb x) = onSuccess cb
         \<and> state (onSuccess cb) = StateClosed)
      \<or> ((ex_pc x = AfterGetState StateClosed \<or> ex_pc x = AfterGetState StateHalfOpen)
         \<and> ex_outcome x \<noteq> None
         \<and> failureCount cb + 1 \<ge> MaxFailures (settings cb)
         \<and> fst (critical_section cb x) = onFailure cb (t_fail (ex_ticks x))
         \<and> state (onFailure cb (t_fail (ex_ticks x))) = StateOpen)"
  proof (cases "ex_pc x")
    case AtGetState
    with ch show ?thesis by (simp add: critical_section_def)
  next
    case AtUpgrade
    with ch show ?thesis by (simp add: critical_section_def split: if_splits)
  next
    case AtReread
    with ch show ?thesis by (simp add: critical_section_def)
  next
    case (AfterGetState st)
    show ?thesis
    proof (cases "ex_outcome x")
      case None
      with ch AfterGetState show ?thesis
        by (cases st)
           (auto simp: critical_section_def onSuccess_def Let_def split: if_splits)
    next
      case (Some err)
      with ch AfterGetState show ?thesis
        by (cases st)
           (auto simp: critical_section_def onFailure_def Let_def split: if_splits)
    qed
  next
    case (Returned r)
    with ch show ?thesis by (simp add: critical_section_def)
  qed
next
  show "fst (critical_section cb (x\<lparr>ex_reads := reads\<rparr>)) = fst (critical_section cb x)"
    by (simp add: critical_section_def
          split: pc.splits CircuitBreakerState.splits option.splits)
next
  show "fst (critical_section cb (x\<lparr>ex_pc := AfterGetState StateClosed\<rparr>))
       = fst (critical_section cb (x\<lparr>ex_pc := AfterGetState StateHalfOpen\<rparr>))"
    by (simp add: critical_section_def split: option.splits)
next
  show "fst (critical_section cb (x\<lparr>ex_pc := AfterGetState StateOpen\<rparr>)) = cb"
    by (simp add: critical_section_def)
qed

theorem transitions_decided_under_the_lock_witness:
  "state (fst (critical_section open1 upgrading)) \<noteq> state open1
   \<and> ex_pc upgrading = AtUpgrade
   \<and> state open1 = StateOpen
   \<and> time_Since (lastFailureTime open1) (t_recheck (ex_ticks upgrading))
       > ResetTimeout (settings open1)
   \<and> fst (critical_section open1 upgrading) = open1\<lparr>state := StateHalfOpen, successCount := 0\<rparr>"
proof -
  have pc: "ex_pc upgrading = AtUpgrade" by (simp add: upgrading_def)
  have ch: "state (fst (critical_section open1 upgrading)) \<noteq> state open1"
    by (simp add: critical_section_def upgrading_def new_execution_def open1_def settings1_def
          at_time_def time_Since_def second_def maxDuration_def minDuration_def)
  from transitions_decided_under_the_lock [of open1 upgrading] ch pc
  have "state open1 = StateOpen
         \<and> time_Since (lastFailureTime open1) (t_recheck (ex_ticks upgrading))
             > ResetTimeout (settings open1)
         \<and> fst (critical_section open1 upgrading)
             = open1\<lparr>state := StateHalfOpen, successCount := 0\<rparr>"
    by auto
  with ch pc show ?thesis by blast
qed

text \<open>
  C9 as stated fails in its last part. Two executes meet on a new breaker with
  \<open>MaxFailures = 1\<close>: the first reads Closed in \<open>getState\<close> and makes its call; meanwhile the
  second reads Closed, fails and opens the breaker; then the first records its success
  and \<open>onSuccess\<close> reads Open. The first execute has read two different states, and its
  success is counted on an Open breaker.
\<close>

theorem execute_reads_two_states:
  "map ex_reads (snd (run (NewCircuitBreaker settings1, two_executes) [0, 1, 1, 0]))
     = [[StateClosed, StateOpen], [StateClosed]]
   \<and> map ex_pc (snd (run (NewCircuitBreaker settings1, two_executes) [0, 1, 1, 0]))
     = [Returned None, Returned (Some ''connection refused'')]
   \<and> state (fst (run (NewCircuitBreaker settings1, two_executes) [0, 1, 1, 0])) = StateOpen
   \<and> successCount (fst (run (NewCircuitBreaker settings1, two_executes) [0, 1, 1, 0])) = 1"
  by (simp add: two_executes_def new_execution_def critical_section_def NewCircuitBreaker_def
        settings1_def onFailure_def onSuccess_def at_time_def)

subsection \<open>Dispatch to an unreachable backend\<close>

lemma forward_timely:
  assumes "url_error env = None" and "ctx_first env = None"
  shows "forward service env rw = (Finished None, ServeHTTP (backend env) rw)"
  using assms by (simp add: forward_def proxyRequest_def)

lemma forward_unparsable:
  assumes "url_error env = Some err" and "ctx_first env = None"
  shows "forward service env rw = (Finished (Some (''invalid target URL: '' @ err)), rw)"
  using assms by (simp add: forward_def proxyRequest_def)

lemma dispatch_records_success:
  assumes "services g name = Some service"
    and "svc_CircuitBreaker service = Some cb"
    and "state cb \<noteq> StateOpen"
    and "url_error env = None" and "ctx_first env = None"
  shows "ProxyHandler g name tk env rw =
           Inr (g\<lparr>services := (services g)
                    (name \<mapsto> service\<lparr>svc_CircuitBreaker := Some (onSuccess cb)\<rparr>)\<rparr>,
                ServeHTTP (backend env) rw)"
proof -
  have ex: "Execute cb tk (forward service env) rw
              = (None, onSuccess cb, ServeHTTP (backend env) rw)"
    using assms(3)
    by (cases "state cb")
       (simp_all add: Execute_def getState_not_Open executeClosed_def executeHalfOpen_def
          executeWithTimeout_def forward_timely [OF assms(4,5)])
  show ?thesis
    using assms(1,2) by (simp add: ProxyHandler_def ex)
qed

lemma dispatch_records_failure:
  assumes "services g name = Some service"
    and "svc_CircuitBreaker service = Some cb"
    and "state cb \<noteq> StateOpen"
    and "url_error env = Some err" and "ctx_first env = None"
  shows "ProxyHandler g name tk env rw =
           Inr (g\<lparr>services := (services g)
                    (name \<mapsto> service\<lparr>svc_CircuitBreaker := Some (onFailure cb (t_fail tk))\<rparr>)\<rparr>,
                c_JSON rw StatusBadGateway [(''error'', ''Bad gateway''), (''service'', name)])"
proof -
  have ex: "Execute cb tk (forward service env) rw
              = (Some (''invalid target URL: '' @ err), onFailure cb (t_fail tk), rw)"
    using assms(3)
    by (cases "state cb")
       (simp_all add: Execute_def getState_not_Open executeClosed_def executeHalfOpen_def
          executeWithTimeout_def forward_unparsable [OF assms(4,5)])
  show ?thesis
    using assms(1,2) by (simp add: ProxyHandler_def ex)
qed

lemma registered_user_service:
  "services (RegisterService NewGateway user_service) ''user-service'' = Some user_service"
  by (simp add: RegisterService_def NewGateway_def user_service_def Let_def second_def)

lemma unparsable_url_counts_as_failure:
  "(case ProxyHandler (RegisterService NewGateway user_service) ''user-service''
           (at_time (5 * second)) unparsable_url no_response of
      Inl p \<Rightarrow> False
    | Inr (g, rw) \<Rightarrow>
        resp_status rw = Some 502
        \<and> map_option failureCount (breaker_of g ''user-service'') = Some 1)"
proof -
  have cb: "svc_CircuitBreaker user_service = Some (NewCircuitBreaker settings3)"
    by (simp add: user_service_def)
  have st: "state (NewCircuitBreaker settings3) \<noteq> StateOpen"
    by (simp add: NewCircuitBreaker_def)
  have env: "url_error unparsable_url
      = Some ''parse \"http://user service\": invalid character \" \" in host name''"
    "ctx_first unparsable_url = None"
    by (simp_all add: unparsable_url_def)
  have rw: "resp_status (c_JSON no_response StatusBadGateway obj) = Some 502" for obj
    by (simp add: c_JSON_def Write_def WriteHeader_def no_response_def StatusBadGateway_def)
  have after: "failureCount (onFailure (NewCircuitBreaker settings3) t) = 1" for t
    by (simp add: onFailure_def NewCircuitBreaker_def settings3_def)
  show ?thesis
    unfolding dispatch_records_failure [OF registered_user_service cb st env]
    by (simp add: rw breaker_of_def after)
qed

text \<open>
  C1 at a concrete dispatch. A new gateway registers \<open>user-service\<close> with a new breaker
  and dispatches to it while the host refuses the connection. The breaker's \<open>Timeout\<close> is
  positive (30s) and the refusal arrives before that deadline and before the request's
  context is done (\<open>ctx_first\<close> is \<open>None\<close>). The client receives
  status 502, written by the proxy's error handler; \<open>proxyRequest\<close> then returns \<open>nil\<close>,
  so the breaker records a success: \<open>failureCount\<close> is 0 as before, not 1, and
  \<open>successCount\<close> is 1. (\<open>dispatch_records_success\<close> shows the same for every registered
  backend whose breaker is not Open; \<open>unparsable_url_counts_as_failure\<close> shows the
  sibling path, an unparsable target URL, which is counted as a failure.)
\<close>

theorem unreachable_backend_counts_as_success:
  "(case ProxyHandler (RegisterService NewGateway user_service) ''user-service''
           (at_time (5 * second)) connection_refused no_response of
      Inl p \<Rightarrow> False
    | Inr (g, rw) \<Rightarrow>
        resp_status rw = Some 502
        \<and> map_option failureCount (breaker_of g ''user-service'') = Some 0
        \<and> map_option successCount (breaker_of g ''user-service'') = Some 1
        \<and> map_option state (breaker_of g ''user-service'') = Some StateClosed)
   \<and> map_option failureCount (breaker_of (RegisterService NewGateway user_service) ''user-service'')
       = Some 0"
proof -
  have cb: "svc_CircuitBreaker user_service = Some (NewCircuitBreaker settings3)"
    by (simp add: user_service_def)
  have st: "state (NewCircuitBreaker settings3) \<noteq> StateOpen"
    by (simp add: NewCircuitBreaker_def)
  have env: "url_error connection_refused = None" "ctx_first connection_refused = None"
    by (simp_all add: connection_refused_def)
  have rw: "resp_status (ServeHTTP (backend connection_refused) no_response) = Some 502"
    by (simp add: connection_refused_def ServeHTTP_def ErrorHandler_def Write_def
          WriteHeader_def no_response_def StatusBadGateway_def)
  have after: "onSuccess (NewCircuitBreaker settings3)
                 = (NewCircuitBreaker settings3)\<lparr>successCount := 1\<rparr>"
    by (simp add: onSuccess_def NewCircuitBreaker_def)
  show ?thesis
    unfolding dispatch_records_success [OF registered_user_service cb st env] after
    by (simp add: rw breaker_of_def registered_user_service cb NewCircuitBreaker_def)
qed

subsection \<open>Retries and their delays\<close>

lemma bitlen_small: "\<bar>m\<bar> < 2 ^ 53 \<Longrightarrow> bitlen \<bar>m\<bar> \<le> 53"
  using bitlen_le_iff_power [of "\<bar>m\<bar>" 53] by simp

lemma round64_exact: "\<bar>m\<bar> < 2 ^ 53 \<Longrightarrow> round64 m 0 = Finite m 0"
proof -
  assume a: "\<bar>m\<bar> < 2 ^ 53"
  have b: "bitlen \<bar>m\<bar> \<le> 53" by (rule bitlen_small [OF a])
  have q: "max (0 + bitlen \<bar>m\<bar> - 53) (- 1074) \<le> 0" using b by simp
  show ?thesis
    unfolding round64_def Let_def using q b by simp
qed

lemma float64_of_int_exact: "\<bar>i\<bar> < 2 ^ 53 \<Longrightarrow> float64_of_int i = Finite i 0"
  by (simp add: float64_of_int_def round64_exact)

lemma fmul_exact: "\<bar>a * b\<bar> < 2 ^ 53 \<Longrightarrow> fmul (Finite a 0) (Finite b 0) = Finite (a * b) 0"
  by (simp add: round64_exact)

lemma trunc_float_int: "\<bar>v\<bar> < 2 ^ 53 \<Longrightarrow> trunc_float (Finite v 0) = Some v"
  by (simp add: minDuration_def maxDuration_def abs_less_iff)

lemma fpow_Suc: "fpow base (Suc k) = fmul (fpow base k) base"
  by (simp add: fpow_def)

lemma fpow_exact:
  assumes "\<forall>i \<le> k. \<bar>M\<bar> ^ i < 2 ^ 53"
  shows "fpow (Finite M 0) k = Finite (M ^ k) 0"
  using assms
proof (induction k)
  case 0
  show ?case by (simp add: fpow_def one_def)
next
  case (Suc k)
  then have IH: "fpow (Finite M 0) k = Finite (M ^ k) 0" by simp
  from Suc.prems have "\<bar>M\<bar> ^ Suc k < 2 ^ 53" by blast
  then have "\<bar>M ^ k * M\<bar> < 2 ^ 53" by (simp add: abs_mult power_abs mult.commute)
  then have "fmul (Finite (M ^ k) 0) (Finite M 0) = Finite (M ^ k * M) 0"
    by (rule fmul_exact)
  then show ?case
    unfolding fpow_Suc IH by (simp add: mult.commute)
qed

lemma pow_loop_eq:
  "i \<le> n \<Longrightarrow> pow_loop base n i result = ((\<lambda>x. fmul x base) ^^ nat (n - i)) result"
proof (induction base n i result rule: pow_loop.induct)
  case (1 base n i result)
  show ?case
  proof (cases "i < n")
    case True
    then have s: "nat (n - i) = Suc (nat (n - (i + 1)))" by simp
    have "pow_loop base n i result = pow_loop base n (i + 1) (fmul result base)"
      using True by (subst pow_loop.simps) simp
    also have "\<dots> = ((\<lambda>x. fmul x base) ^^ nat (n - (i + 1))) (fmul result base)"
      using 1 True by simp
    also have "\<dots> = ((\<lambda>x. fmul x base) ^^ nat (n - i)) result"
      unfolding s using funpow_swap1 [of "\<lambda>x. fmul x base" "nat (n - (i + 1))" result]
      by simp
    finally show ?thesis .
  next
    case False
    with 1 have "i = n" by simp
    then show ?thesis by (subst pow_loop.simps) simp
  qed
qed

lemma pow_eq:
  assumes "0 \<le> k" and "k < 2 ^ 53"
  shows "pow impl base (float64_of_int k) = fpow base (nat k)"
proof -
  have f: "float64_of_int k = Finite k 0" using assms by (intro float64_of_int_exact) simp
  have t: "int64_of_float impl (Finite k 0) = k"
    using assms by (simp add: int64_of_float_def minDuration_def maxDuration_def)
  show ?thesis
  proof (cases "k = 0")
    case True
    show ?thesis unfolding pow_def f by (simp add: True fpow_def)
  next
    case False
    show ?thesis
      unfolding pow_def f t using assms(1) False by (simp add: pow_loop_eq fpow_def)
  qed
qed

lemma calculateDelay_no_jitter:
  assumes "\<not> Jitter r" and "1 \<le> attempt" and "attempt \<le> 2 ^ 53"
    and "trunc_float (fmul (float64_of_int (BaseDelay r))
                           (fpow (Multiplier r) (nat (attempt - 1)))) = Some d"
  shows "calculateDelay impl r attempt rnd = min d (MaxDelay r)"
proof -
  have p: "pow impl (Multiplier r) (float64_of_int (attempt - 1))
             = fpow (Multiplier r) (nat (attempt - 1))"
    using assms(2,3) by (intro pow_eq) simp_all
  show ?thesis
    unfolding calculateDelay_def Let_def p using assms(1)
    by (simp add: min_def int64_of_float_def assms(4))
qed

lemma Retry_loop_exhausts:
  assumes "\<forall>w. fst (fn w) \<noteq> None" and "\<forall>attempt. ctx attempt = None"
    and "1 \<le> a" and "a \<le> MaxRetries r + 1" and "k = nat (MaxRetries r + 1 - a)"
  shows "Retry_loop impl r ctx rnd fn a lastErr slept w =
           ((if a \<le> MaxRetries r
             then fst (fn (((\<lambda>w. snd (fn w)) ^^ (k - 1)) w)) else lastErr),
            slept @ map (\<lambda>n. calculateDelay impl r n (rnd n)) [a..MaxRetries r],
            ((\<lambda>w. snd (fn w)) ^^ k) w)"
  using assms(3,4,5)
proof (induction k arbitrary: a lastErr slept w)
  case 0
  then have a: "a = MaxRetries r + 1" by simp
  show ?case
    by (subst Retry_loop.simps) (simp add: a)
next
  case (Suc k)
  then have le: "a \<le> MaxRetries r" and pos: "a > 0" by simp_all
  have k: "k = nat (MaxRetries r + 1 - (a + 1))" using Suc.prems by simp
  have fails: "fst (fn w) \<noteq> None" using assms(1) by blast
  have nd: "ctx a = None" using assms(2) by blast
  have step: "Retry_loop impl r ctx rnd fn a lastErr slept w =
      Retry_loop impl r ctx rnd fn (a + 1) (fst (fn w))
        (slept @ [calculateDelay impl r a (rnd a)]) (snd (fn w))"
    by (subst Retry_loop.simps) (simp add: le pos fails nd)
  have up: "[a..MaxRetries r] = a # [a + 1..MaxRetries r]"
    using le by (simp add: upto_rec1)
  have IH: "Retry_loop impl r ctx rnd fn (a + 1) (fst (fn w))
        (slept @ [calculateDelay impl r a (rnd a)]) (snd (fn w)) =
           ((if a + 1 \<le> MaxRetries r
             then fst (fn (((\<lambda>w. snd (fn w)) ^^ (k - 1)) (snd (fn w)))) else fst (fn w)),
            (slept @ [calculateDelay impl r a (rnd a)])
              @ map (\<lambda>n. calculateDelay impl r n (rnd n)) [a + 1..MaxRetries r],
            ((\<lambda>w. snd (fn w)) ^^ k) (snd (fn w)))"
    using Suc.prems by (intro Suc.IH) simp_all
  have w: "((\<lambda>w. snd (fn w)) ^^ Suc k) w = ((\<lambda>w. snd (fn w)) ^^ k) (snd (fn w))"
    using funpow_swap1 [of "\<lambda>w. snd (fn w)" k w] by simp
  have e: "(if a + 1 \<le> MaxRetries r
             then fst (fn (((\<lambda>w. snd (fn w)) ^^ (k - 1)) (snd (fn w)))) else fst (fn w))
         = fst (fn (((\<lambda>w. snd (fn w)) ^^ (Suc k - 1)) w))"
  proof (cases "a + 1 \<le> MaxRetries r")
    case True
    then have "k = Suc (k - 1)" using k by simp
    have "((\<lambda>w. snd (fn w)) ^^ (k - 1)) (snd (fn w)) = ((\<lambda>w. snd (fn w)) ^^ Suc (k - 1)) w"
      using funpow_swap1 [of "\<lambda>w. snd (fn w)" "k - 1" w] by simp
    also have "\<dots> = ((\<lambda>w. snd (fn w)) ^^ k) w" using \<open>k = Suc (k - 1)\<close> by simp
    finally show ?thesis using True by simp
  next
    case False
    then have "k = 0" using k by simp
    with False show ?thesis by simp
  qed
  show ?case
    unfolding step IH w e up using le by simp
qed




text \<open>
  Beyond 64 bits the conversion is left to the implementation and the cap comes too late:
  at 100ms doubled 37 times the product no longer fits, and an implementation that
  answers with the least integer makes the sleep before attempt 38 negative.
\<close>

lemma delay_beyond_int64:
  "trunc_float (fmul (float64_of_int (BaseDelay retry_40)) (fpow (Multiplier retry_40) 37)) = None
   \<and> calculateDelay indefinite retry_40 38 (Finite 0 0) = minDuration
   \<and> MaxDelay retry_40 = 30 * second"
  by code_simp

text \<open>
  C6, as the code has it. Jitter is off, \<open>0 \<le> MaxRetries\<close>, the call fails every time and the
  context is never done during a sleep. Then the call is invoked exactly \<open>MaxRetries + 1\<close>
  times (the environment is the one left by that many invocations), the result is the error
  of the last invocation, and there are \<open>MaxRetries\<close> sleeps, one before each retry. For every
  \<open>n\<close> from 1 to \<open>MaxRetries\<close> (and at most \<open>2^53\<close>, so that \<open>float64(n - 1)\<close> is \<open>n - 1\<close>), the
  sleep before attempt \<open>n\<close> is \<open>min d MaxDelay\<close>, where \<open>d\<close> is the product
  \<open>float64(BaseDelay) * Multiplier^(n-1)\<close> taken in \<open>float64\<close> arithmetic (every
  multiplication rounded) and cut to whole nanoseconds, whenever that value fits 64 bits.
  Where the multiplier is a whole number \<open>M\<close> and \<open>BaseDelay\<close>, the powers of \<open>M\<close> up to
  \<open>M^(n-1)\<close> and the product \<open>BaseDelay * M^(n-1)\<close> stay below \<open>2^53\<close>, nothing is rounded and
  the sleep is \<open>min (BaseDelay * M^(n-1)) MaxDelay\<close>. The witness is the configuration
  \<open>MaxRetries = 3, BaseDelay = 100ms, Multiplier = 2\<close>: four invocations, sleeps of 100ms,
  200ms and 400ms.
\<close>

theorem retry_makes_all_attempts_with_backoff:
  assumes "\<not> Jitter r" and "0 \<le> MaxRetries r"
    and "\<forall>w. fst (fn w) \<noteq> None" and "\<forall>attempt. ctx attempt = None"
  shows "snd (snd (Retry_Execute impl r ctx rnd fn w))
           = ((\<lambda>w. snd (fn w)) ^^ nat (MaxRetries r + 1)) w
       \<and> fst (Retry_Execute impl r ctx rnd fn w)
           = fst (fn (((\<lambda>w. snd (fn w)) ^^ nat (MaxRetries r)) w))
       \<and> fst (Retry_Execute impl r ctx rnd fn w) \<noteq> None
       \<and> length (fst (snd (Retry_Execute impl r ctx rnd fn w))) = nat (MaxRetries r)
       \<and> (\<forall>n d. 1 \<le> n \<and> n \<le> MaxRetries r \<and> n \<le> 2 ^ 53
               \<and> trunc_float (fmul (float64_of_int (BaseDelay r))
                                   (fpow (Multiplier r) (nat (n - 1)))) = Some d \<longrightarrow>
               fst (snd (Retry_Execute impl r ctx rnd fn w)) ! nat (n - 1)
                 = min d (MaxDelay r))
       \<and> (\<forall>n M. 1 \<le> n \<and> n \<le> MaxRetries r \<and> n \<le> 2 ^ 53
               \<and> Multiplier r = float64_of_int M
               \<and> (\<forall>j \<le> nat (n - 1). \<bar>M\<bar> ^ j < 2 ^ 53)
               \<and> \<bar>BaseDelay r\<bar> < 2 ^ 53
               \<and> \<bar>BaseDelay r\<bar> * \<bar>M\<bar> ^ nat (n - 1) < 2 ^ 53 \<longrightarrow>
               fst (snd (Retry_Execute impl r ctx rnd fn w)) ! nat (n - 1)
                 = min (BaseDelay r * M ^ nat (n - 1)) (MaxDelay r))"
proof -
  let ?f = "\<lambda>w. snd (fn w)"
  let ?k = "nat (MaxRetries r)"
  let ?D = "\<lambda>n. fmul (float64_of_int (BaseDelay r)) (fpow (Multiplier r) (nat (n - 1)))"
  let ?sleeps = "fst (snd (Retry_Execute impl r ctx rnd fn w))"
  have fails: "fst (fn v) \<noteq> None" for v using assms(3) by blast
  have first: "Retry_Execute impl r ctx rnd fn w =
                 Retry_loop impl r ctx rnd fn 1 (fst (fn w)) [] (snd (fn w))"
    unfolding Retry_Execute_def
    by (subst Retry_loop.simps) (simp add: assms(2) fails)
  have k: "?k = nat (MaxRetries r + 1 - 1)" by simp
  note rest = Retry_loop_exhausts [OF assms(3,4) _ _ k,
      where lastErr = "fst (fn w)" and rnd = rnd and slept = "[]" and w = "snd (fn w)"]
  have run: "Retry_Execute impl r ctx rnd fn w =
           ((if 1 \<le> MaxRetries r then fst (fn ((?f ^^ (?k - 1)) (snd (fn w)))) else fst (fn w)),
            map (\<lambda>n. calculateDelay impl r n (rnd n)) [1..MaxRetries r],
            (?f ^^ ?k) (snd (fn w)))"
    unfolding first using assms(2) by (subst rest) simp_all
  have sw: "(?f ^^ n) (snd (fn w)) = (?f ^^ Suc n) w" for n
    using funpow_swap1 [of ?f n w] by simp
  have world: "snd (snd (Retry_Execute impl r ctx rnd fn w)) = (?f ^^ nat (MaxRetries r + 1)) w"
  proof -
    have "nat (MaxRetries r + 1) = Suc ?k" using assms(2) by simp
    then show ?thesis unfolding run by (simp only: sw snd_conv)
  qed
  have err: "fst (Retry_Execute impl r ctx rnd fn w) = fst (fn ((?f ^^ ?k) w))"
  proof (cases "1 \<le> MaxRetries r")
    case True
    then have "?k = Suc (?k - 1)" by simp
    then have "(?f ^^ (?k - 1)) (snd (fn w)) = (?f ^^ ?k) w"
      using sw [of "?k - 1"] by simp
    with True show ?thesis unfolding run by simp
  next
    case False
    with assms(2) have "MaxRetries r = 0" by simp
    then show ?thesis unfolding run by simp
  qed
  have sleeps: "?sleeps = map (\<lambda>n. calculateDelay impl r n (rnd n)) [1..MaxRetries r]"
    unfolding run by simp
  have len: "length ?sleeps = nat (MaxRetries r)"
    unfolding sleeps using assms(2) by simp
  have nth: "?sleeps ! nat (n - 1) = calculateDelay impl r n (rnd n)"
    if "1 \<le> n" "n \<le> MaxRetries r" for n
  proof -
    have "[1..MaxRetries r] ! nat (n - 1) = 1 + int (nat (n - 1))"
      using that by (intro nth_upto) simp
    moreover have "nat (n - 1) < length [1..MaxRetries r]" using that by simp
    ultimately show ?thesis unfolding sleeps using that by simp
  qed
  have slept: "?sleeps ! nat (n - 1) = min d (MaxDelay r)"
    if "1 \<le> n" "n \<le> MaxRetries r" "n \<le> 2 ^ 53" "trunc_float (?D n) = Some d" for n d
    using nth [OF that(1,2)] calculateDelay_no_jitter [OF assms(1) that(1,3,4)] by simp
  have exact: "?sleeps ! nat (n - 1) = min (BaseDelay r * M ^ nat (n - 1)) (MaxDelay r)"
    if n: "1 \<le> n" "n \<le> MaxRetries r" "n \<le> 2 ^ 53"
      and m: "Multiplier r = float64_of_int M"
      and pw: "\<forall>j \<le> nat (n - 1). \<bar>M\<bar> ^ j < 2 ^ 53"
      and b: "\<bar>BaseDelay r\<bar> < 2 ^ 53"
      and pr: "\<bar>BaseDelay r\<bar> * \<bar>M\<bar> ^ nat (n - 1) < 2 ^ 53" for n M
  proof (rule slept [OF n])
    let ?j = "nat (n - 1)"
    have fb: "float64_of_int (BaseDelay r) = Finite (BaseDelay r) 0"
      by (rule float64_of_int_exact [OF b])
    have p: "fpow (Multiplier r) ?j = Finite (M ^ ?j) 0"
    proof (cases "?j = 0")
      case True
      then show ?thesis by (simp add: fpow_def one_def)
    next
      case False
      then have "1 \<le> ?j" by simp
      with pw have "\<bar>M\<bar> ^ 1 < 2 ^ 53" by blast
      then have "float64_of_int M = Finite M 0"
        by (intro float64_of_int_exact) simp
      with pw m show ?thesis by (simp add: fpow_exact)
    qed
    have "\<bar>BaseDelay r * M ^ ?j\<bar> < 2 ^ 53"
      using pr by (simp add: abs_mult power_abs)
    then have "fmul (Finite (BaseDelay r) 0) (Finite (M ^ ?j) 0) = Finite (BaseDelay r * M ^ ?j) 0"
      and "trunc_float (Finite (BaseDelay r * M ^ ?j) 0) = Some (BaseDelay r * M ^ ?j)"
      by (rule fmul_exact, rule trunc_float_int)
    then show "trunc_float (?D n) = Some (BaseDelay r * M ^ nat (n - 1))"
      unfolding fb p by simp
  qed
  have ne: "fst (Retry_Execute impl r ctx rnd fn w) \<noteq> None"
    unfolding err by (rule fails)
  have A: "\<forall>n d. 1 \<le> n \<and> n \<le> MaxRetries r \<and> n \<le> 2 ^ 53
               \<and> trunc_float (?D n) = Some d \<longrightarrow>
               ?sleeps ! nat (n - 1) = min d (MaxDelay r)"
    using slept by blast
  have B: "\<forall>n M. 1 \<le> n \<and> n \<le> MaxRetries r \<and> n \<le> 2 ^ 53
               \<and> Multiplier r = float64_of_int M
               \<and> (\<forall>j \<le> nat (n - 1). \<bar>M\<bar> ^ j < 2 ^ 53)
               \<and> \<bar>BaseDelay r\<bar> < 2 ^ 53
               \<and> \<bar>BaseDelay r\<bar> * \<bar>M\<bar> ^ nat (n - 1) < 2 ^ 53 \<longrightarrow>
               ?sleeps ! nat (n - 1) = min (BaseDelay r * M ^ nat (n - 1)) (MaxDelay r)"
    using exact by blast
  show ?thesis by (intro conjI world err ne len A B)
qed

theorem retry_makes_all_attempts_with_backoff_witness:
  "\<not> Jitter retry3 \<and> 0 \<le> MaxRetries retry3
   \<and> MaxRetries retry3 = 3 \<and> BaseDelay retry3 = 100 * millisecond
   \<and> Multiplier retry3 = float64_of_int 2
   \<and> trunc_float (fmul (float64_of_int (BaseDelay retry3)) (fpow (Multiplier retry3) 2))
       = Some (400 * millisecond)
   \<and> snd (snd (Retry_Execute indefinite retry3 never_done no_draw rcall_fails 0)) = 4
   \<and> fst (snd (Retry_Execute indefinite retry3 never_done no_draw rcall_fails 0))
       = [100 * millisecond, 200 * millisecond, 400 * millisecond]
   \<and> fst (Retry_Execute indefinite retry3 never_done no_draw rcall_fails 0)
       = Some ''connection refused''"
proof -
  let ?sleeps = "fst (snd (Retry_Execute indefinite retry3 never_done no_draw rcall_fails 0))"
  have j: "\<not> Jitter retry3" by (simp add: retry3_def DefaultRetry_def)
  have m: "0 \<le> MaxRetries retry3" by (simp add: retry3_def DefaultRetry_def)
  have f: "\<forall>w. fst (rcall_fails w) \<noteq> None" by (simp add: rcall_fails_def)
  have c: "\<forall>attempt. never_done attempt = None" by (simp add: never_done_def)
  have two: "float64_of_int 2 = Finite 2 0" by (rule float64_of_int_exact) simp
  have cfg: "MaxRetries retry3 = 3" "BaseDelay retry3 = 100 * millisecond"
    "Multiplier retry3 = float64_of_int 2" "MaxDelay retry3 = 30 * second"
    by (simp_all add: retry3_def DefaultRetry_def two)
  have fit: "trunc_float (fmul (float64_of_int (BaseDelay retry3)) (fpow (Multiplier retry3) 2))
               = Some (400 * millisecond)"
    by code_simp
  have pw: "\<forall>j \<le> nat (n - 1). \<bar>2::int\<bar> ^ j < 2 ^ 53" if "n = 1 \<or> n = 2 \<or> n = 3" for n :: int
  proof (intro allI impI)
    fix j assume "j \<le> nat (n - 1)"
    with that have "j = 0 \<or> j = 1 \<or> j = 2" by auto
    then show "\<bar>2::int\<bar> ^ j < 2 ^ 53" by auto
  qed
  note inst = retry_makes_all_attempts_with_backoff [OF j m f c,
      where impl = "indefinite" and rnd = "no_draw" and w = "0::nat"]
  from inst have len: "length ?sleeps = 3" unfolding cfg by simp
  from inst
  have exact: "1 \<le> n \<and> n \<le> MaxRetries retry3 \<and> n \<le> 2 ^ 53
               \<and> Multiplier retry3 = float64_of_int 2
               \<and> (\<forall>j \<le> nat (n - 1). \<bar>2::int\<bar> ^ j < 2 ^ 53)
               \<and> \<bar>BaseDelay retry3\<bar> < 2 ^ 53
               \<and> \<bar>BaseDelay retry3\<bar> * \<bar>2\<bar> ^ nat (n - 1) < 2 ^ 53 \<longrightarrow>
               ?sleeps ! nat (n - 1)
                 = min (BaseDelay retry3 * 2 ^ nat (n - 1)) (MaxDelay retry3)" for n
    by blast
  have s0: "?sleeps ! 0 = 100 * millisecond"
    using exact [of 1] pw [of 1] unfolding cfg(1,2,4)
    by (simp add: cfg(3) millisecond_def second_def)
  have s1: "?sleeps ! 1 = 200 * millisecond"
    using exact [of 2] pw [of 2] unfolding cfg(1,2,4)
    by (simp add: cfg(3) millisecond_def second_def)
  from inst
  have slept: "1 \<le> (3::int) \<and> 3 \<le> MaxRetries retry3 \<and> (3::int) \<le> 2 ^ 53
               \<and> trunc_float (fmul (float64_of_int (BaseDelay retry3))
                                   (fpow (Multiplier retry3) (nat (3 - 1))))
                   = Some (400 * millisecond) \<longrightarrow>
               ?sleeps ! nat (3 - 1) = min (400 * millisecond) (MaxDelay retry3)"
    by blast
  have n2: "nat (3 - 1) = 2" by simp
  have s2: "?sleeps ! 2 = 400 * millisecond"
    using slept fit unfolding n2 cfg(1,4) by (simp add: millisecond_def second_def)
  have sleeps: "?sleeps = [100 * millisecond, 200 * millisecond, 400 * millisecond]"
  proof (rule nth_equalityI)
    show "length ?sleeps = length [100 * millisecond, 200 * millisecond, 400 * millisecond]"
      using len by simp
  next
    fix i assume "i < length ?sleeps"
    then have "i = 0 \<or> i = 1 \<or> i = 2" unfolding len by auto
    then show "?sleeps ! i = [100 * millisecond, 200 * millisecond, 400 * millisecond] ! i"
      using s0 s1 s2 by auto
  qed
  have count: "((\<lambda>w. snd (rcall_fails w)) ^^ n) 0 = n" for n
    by (induction n) (simp_all add: rcall_fails_def)
  have e: "fst (rcall_fails x) = Some ''connection refused''" for x
    by (simp add: rcall_fails_def)
  have four: "nat (3 + 1) = 4" by simp
  from inst
  have rest: "snd (snd (Retry_Execute indefinite retry3 never_done no_draw rcall_fails 0)) = 4
   \<and> fst (Retry_Execute indefinite retry3 never_done no_draw rcall_fails 0)
       = Some ''connection refused''"
    unfolding cfg(1) four count e by blast
  from j m cfg(1,2,3) fit sleeps rest show ?thesis by blast
qed

text \<open>
  C6 as stated fails: with \<open>BaseDelay = 100ms\<close> and the multiplier 1.01 the sleep before
  the fourth retry is 103030099ns, while \<open>BaseDelay * Multiplier^3\<close> is above 103030100ns
  (and below \<open>MaxDelay\<close>).
\<close>

theorem retry_delay_is_a_rounded_product:
  "fst (snd (Retry_Execute indefinite retry_101 never_done no_draw rcall_fails 0))
     = [100000000, 101000000, 102010000, 103030099]
   \<and> calculateDelay indefinite retry_101 4 (no_draw 4) = 103030099
   \<and> 103030100 \<le> min (real_of_int (BaseDelay retry_101) * valof (Multiplier retry_101) ^ (4 - 1))
                        (real_of_int (MaxDelay retry_101))"
proof -
  have 1: "fst (snd (Retry_Execute indefinite retry_101 never_done no_draw rcall_fails 0))
     = [100000000, 101000000, 102010000, 103030099]" by code_simp
  have 2: "calculateDelay indefinite retry_101 4 (no_draw 4) = 103030099" by code_simp
  have 3: "103030100 \<le> min (real_of_int (BaseDelay retry_101) * valof (Multiplier retry_101) ^ (4 - 1))
                        (real_of_int (MaxDelay retry_101))"
    by (simp add: retry_101_def millisecond_def second_def power_divide)
  from 1 2 3 show ?thesis by blast
qed

subsection \<open>Registration\<close>

lemma RegisterService_eq:
  "RegisterService g service =
     g\<lparr>services := (services g)(Name service \<mapsto>
        service\<lparr>svc_CircuitBreaker :=
                   (if svc_CircuitBreaker service = None
                    then Some (NewCircuitBreaker DefaultSettings)
                    else svc_CircuitBreaker service),
                 svc_Timeout := (if svc_Timeout service = 0 then 30 * second
                                 else svc_Timeout service)\<rparr>)\<rparr>"
proof (cases "svc_CircuitBreaker service = None")
  case True
  show ?thesis
  proof (cases "svc_Timeout service = 0")
    case t: True
    show ?thesis using True t unfolding RegisterService_def Let_def by simp
  next
    case f: False
    show ?thesis using True f unfolding RegisterService_def Let_def by simp
  qed
next
  case False
  then obtain cb where cb: "svc_CircuitBreaker service = Some cb" by blast
  have same: "service\<lparr>svc_CircuitBreaker := Some cb\<rparr> = service"
    using cb by simp
  show ?thesis
  proof (cases "svc_Timeout service = 0")
    case t: True
    show ?thesis unfolding RegisterService_def Let_def cb by (simp add: t same)
  next
    case f: False
    show ?thesis unfolding RegisterService_def Let_def cb by (simp add: f same)
  qed
qed

text \<open>
  C7, as the code has it. \<open>RegisterService\<close> has no error result and makes no check for
  an existing name: it stores the config (with the default breaker and the default
  timeout filled in) under its name, replacing whatever was there, and leaves every other
  entry as it was.
\<close>

theorem RegisterService_replaces_entry:
  "(\<exists>stored. services (RegisterService g service) (Name service) = Some stored
      \<and> Name stored = Name service \<and> URL stored = URL service
      \<and> HealthPath stored = HealthPath service \<and> Retries stored = Retries service
      \<and> svc_Timeout stored = (if svc_Timeout service = 0 then 30 * second else svc_Timeout service)
      \<and> svc_CircuitBreaker stored =
            (if svc_CircuitBreaker service = None then Some (NewCircuitBreaker DefaultSettings)
             else svc_CircuitBreaker service))
   \<and> (\<forall>name. name \<noteq> Name service \<longrightarrow>
         services (RegisterService g service) name = services g name)"
proof -
  let ?stored = "service\<lparr>svc_CircuitBreaker :=
                   (if svc_CircuitBreaker service = None
                    then Some (NewCircuitBreaker DefaultSettings)
                    else svc_CircuitBreaker service),
                 svc_Timeout := (if svc_Timeout service = 0 then 30 * second
                                 else svc_Timeout service)\<rparr>"
  have at_name: "services (RegisterService g service) (Name service) = Some ?stored"
    by (subst RegisterService_eq) simp
  have fields: "Name ?stored = Name service \<and> URL ?stored = URL service
      \<and> HealthPath ?stored = HealthPath service \<and> Retries ?stored = Retries service
      \<and> svc_Timeout ?stored = (if svc_Timeout service = 0 then 30 * second else svc_Timeout service)
      \<and> svc_CircuitBreaker ?stored =
            (if svc_CircuitBreaker service = None then Some (NewCircuitBreaker DefaultSettings)
             else svc_CircuitBreaker service)"
    by simp
  have others: "\<forall>name. name \<noteq> Name service \<longrightarrow>
         services (RegisterService g service) name = services g name"
    by (subst RegisterService_eq) simp
  from at_name fields others show ?thesis by blast
qed

theorem RegisterService_replaces_entry_witness:
  "''user-service'' \<noteq> Name order_service
   \<and> services (RegisterService (RegisterService NewGateway user_service) order_service)
        ''user-service'' = Some user_service
   \<and> map_option svc_Timeout
        (services (RegisterService (RegisterService NewGateway user_service) order_service)
           ''order-service'') = Some (30 * second)
   \<and> map_option svc_CircuitBreaker
        (services (RegisterService (RegisterService NewGateway user_service) order_service)
           ''order-service'') = Some (Some (NewCircuitBreaker DefaultSettings))"
proof -
  have n: "''user-service'' \<noteq> Name order_service" "Name order_service = ''order-service''"
    by (simp_all add: order_service_def)
  have u: "services (RegisterService NewGateway user_service) ''user-service'' = Some user_service"
    by (subst RegisterService_eq) (simp add: user_service_def second_def)
  have o: "svc_Timeout order_service = 0" "svc_CircuitBreaker order_service = None"
    by (simp_all add: order_service_def)
  let ?g = "RegisterService NewGateway user_service"
  from RegisterService_replaces_entry [of ?g order_service]
  obtain stored where s: "services (RegisterService ?g order_service) (Name order_service) = Some stored"
      "svc_Timeout stored = (if svc_Timeout order_service = 0 then 30 * second else svc_Timeout order_service)"
      "svc_CircuitBreaker stored =
            (if svc_CircuitBreaker order_service = None then Some (NewCircuitBreaker DefaultSettings)
             else svc_CircuitBreaker order_service)"
    and other: "\<forall>name. name \<noteq> Name order_service \<longrightarrow>
         services (RegisterService ?g order_service) name = services ?g name"
    by blast
  from other n(1) have 1: "services (RegisterService ?g order_service) ''user-service'' = Some user_service"
    unfolding u [symmetric] by blast
  have 2: "map_option svc_Timeout (services (RegisterService ?g order_service) ''order-service'')
             = Some (30 * second)"
    using s(1,2) unfolding n(2) o by simp
  have 3: "map_option svc_CircuitBreaker (services (RegisterService ?g order_service) ''order-service'')
             = Some (Some (NewCircuitBreaker DefaultSettings))"
    using s(1,3) unfolding n(2) o by simp
  from n(1) 1 2 3 show ?thesis by blast
qed

text \<open>
  C7 as stated fails: registering a second config under the name \<open>user-service\<close>
  replaces the entry registered before.
\<close>

theorem RegisterService_overwrites_duplicate:
  "services (RegisterService NewGateway user_service) ''user-service'' = Some user_service
   \<and> Name user_service_moved = ''user-service''
   \<and> services (RegisterService (RegisterService NewGateway user_service) user_service_moved)
        ''user-service'' = Some user_service_moved
   \<and> user_service_moved \<noteq> user_service"
proof -
  have 1: "services (RegisterService NewGateway user_service) ''user-service'' = Some user_service"
    by (subst RegisterService_eq) (simp add: user_service_def second_def)
  have 2: "Name user_service_moved = ''user-service''"
    by (simp add: user_service_moved_def user_service_def)
  have 3: "services (RegisterService (RegisterService NewGateway user_service) user_service_moved)
        ''user-service'' = Some user_service_moved"
    by (subst RegisterService_eq) (simp add: user_service_moved_def user_service_def second_def)
  have 4: "user_service_moved \<noteq> user_service"
  proof
    assume "user_service_moved = user_service"
    then have "URL user_service_moved = URL user_service" by simp
    then show False by (simp add: user_service_moved_def user_service_def)
  qed
  from 1 2 3 4 show ?thesis by blast
qed

subsection \<open>The health report\<close>

lemma has_breakers_Register: "has_breakers g \<Longrightarrow> has_breakers (RegisterService g service)"
  by (subst RegisterService_eq) (auto simp: has_breakers_def)

lemma has_breakers_Proxy:
  assumes "has_breakers g" and "ProxyHandler g name tk env rw = Inr (g', rw')"
  shows "has_breakers g'"
  using assms
  by (auto simp: ProxyHandler_def has_breakers_def Let_def
        split: option.splits prod.splits if_splits)

lemma has_breakers_step: "has_breakers g \<Longrightarrow> has_breakers (gateway_step g ev)"
proof (cases ev)
  case (Register service)
  assume "has_breakers g"
  then show ?thesis unfolding Register by (simp add: has_breakers_Register)
next
  case (Dispatch name tk env rw)
  assume h: "has_breakers g"
  show ?thesis
  proof (cases "ProxyHandler g name tk env rw")
    case (Inl p)
    with h show ?thesis unfolding Dispatch by simp
  next
    case (Inr res)
    obtain g' rw' where res: "res = (g', rw')" by (cases res)
    from has_breakers_Proxy [OF h Inr [unfolded res]]
    show ?thesis unfolding Dispatch by (simp add: Inr res)
  qed
qed

lemma has_breakers_foldl: "has_breakers g \<Longrightarrow> has_breakers (foldl gateway_step g events)"
  by (induction events arbitrary: g) (simp_all add: has_breakers_step)

lemma gateway_after_has_breakers: "has_breakers (gateway_after events)"
  unfolding gateway_after_def
  by (rule has_breakers_foldl) (simp add: has_breakers_def NewGateway_def)

lemma health_loop_result:
  assumes "distinct (map fst entries)"
    and "\<forall>x \<in> set entries. svc_CircuitBreaker (snd x) \<noteq> None"
  shows "health_loop net entries results ov =
           Inr (\<lambda>name. case map_of entries name of
                          None \<Rightarrow> results name
                        | Some service \<Rightarrow> report net service,
                ov \<and> (\<forall>x \<in> set entries. fst (checkServiceHealth net (snd x))))"
  using assms
proof (induction entries arbitrary: results ov)
  case Nil
  show ?case by simp
next
  case (Cons x entries)
  obtain name service where x: "x = (name, service)" by (cases x)
  obtain h d where c: "checkServiceHealth net service = (h, d)"
    by (cases "checkServiceHealth net service")
  from Cons.prems x obtain cb where cb: "svc_CircuitBreaker service = Some cb" by auto
  from Cons.prems x have fresh: "map_of entries name = None"
    by (simp add: map_of_eq_None_iff)
  from Cons.prems have d: "distinct (map fst entries)"
    and b: "\<forall>x \<in> set entries. svc_CircuitBreaker (snd x) \<noteq> None" by simp_all
  have step: "health_loop net (x # entries) results ov =
      health_loop net entries (results(name := report net service)) (if \<not> h then False else ov)"
    unfolding x by (simp add: c cb report_def)
  have m: "(\<lambda>n. case map_of entries n of
                    None \<Rightarrow> (results(name := report net service)) n
                  | Some s \<Rightarrow> report net s)
         = (\<lambda>n. case map_of (x # entries) n of
                    None \<Rightarrow> results n
                  | Some s \<Rightarrow> report net s)"
    unfolding x using fresh by (auto simp: fun_eq_iff split: option.splits)
  have o: "((if \<not> h then False else ov) \<and> (\<forall>x \<in> set entries. fst (checkServiceHealth net (snd x))))
         = (ov \<and> (\<forall>y \<in> set (x # entries). fst (checkServiceHealth net (snd y))))"
    unfolding x using c by auto
  show ?case
    unfolding step Cons.IH [OF d b] m o ..
qed


text \<open>
  C8. For every registry a gateway holds after any registrations and dispatches, and
  every order in which the loop meets its entries, the health handler answers (it does not panic); \<open>overallHealthy\<close> is the
  conjunction of the \<open>healthy\<close> flags it reports; the status is 200 if it is true and
  503 otherwise; the report has exactly the registered names, and the entry of each
  backend carries the outcome of its probe together with its breaker's state name
  (\<open>CLOSED\<close>, \<open>HALF_OPEN\<close> or \<open>OPEN\<close>), \<open>failure_count\<close> and \<open>success_count\<close>.
\<close>

theorem health_aggregate_is_conjunction:
  assumes "g = gateway_after events" and "range_of g entries"
  shows "\<exists>r. HealthCheckHandler net entries now = Inr r
     \<and> status_healthy r = (\<forall>name entry. services_report r name = Some entry \<longrightarrow> healthy entry)
     \<and> status_code r = (if status_healthy r then 200 else 503)
     \<and> dom (services_report r) = dom (services g)
     \<and> (\<forall>name service cb.
           services g name = Some service \<and> svc_CircuitBreaker service = Some cb \<longrightarrow>
           (\<exists>entry. services_report r name = Some entry
              \<and> healthy entry = fst (checkServiceHealth net service)
              \<and> details entry = snd (checkServiceHealth net service)
              \<and> stat_state (circuit_breaker entry) =
                  (case state cb of
                     StateClosed \<Rightarrow> ''CLOSED''
                   | StateHalfOpen \<Rightarrow> ''HALF_OPEN''
                   | StateOpen \<Rightarrow> ''OPEN'')
              \<and> stat_failure_count (circuit_breaker entry) = failureCount cb
              \<and> stat_success_count (circuit_breaker entry) = successCount cb))"
proof -
  from assms(2) have d: "distinct (map fst entries)" and m: "map_of entries = services g"
    by (simp_all add: range_of_def)
  from gateway_after_has_breakers [of events]
  have hb: "\<And>name service. services g name = Some service \<Longrightarrow> svc_CircuitBreaker service \<noteq> None"
    unfolding assms(1) [symmetric] by (auto simp: has_breakers_def)
  have mem: "x \<in> set entries \<longleftrightarrow> services g (fst x) = Some (snd x)" for x
    using map_of_eq_Some_iff [OF d, of "fst x" "snd x"] unfolding m by simp
  have b: "\<forall>x \<in> set entries. svc_CircuitBreaker (snd x) \<noteq> None"
    using hb mem by blast
  let ?results = "\<lambda>name. case services g name of
                          None \<Rightarrow> None
                        | Some service \<Rightarrow> report net service"
  let ?ov = "\<forall>x \<in> set entries. fst (checkServiceHealth net (snd x))"
  let ?r = "\<lparr>status_code = (if \<not> ?ov then StatusServiceUnavailable else StatusOK),
             status_healthy = ?ov, services_report = ?results, timestamp = now\<rparr>"
  have loop: "health_loop net entries Map.empty True = Inr (?results, ?ov)"
    unfolding health_loop_result [OF d b] m by simp
  have r: "HealthCheckHandler net entries now = Inr ?r"
    unfolding HealthCheckHandler_def loop by simp
  have ov: "?ov = (\<forall>name service. services g name = Some service \<longrightarrow>
                     fst (checkServiceHealth net service))"
  proof
    assume a: ?ov
    show "\<forall>name service. services g name = Some service \<longrightarrow>
                     fst (checkServiceHealth net service)"
    proof (intro allI impI)
      fix name service assume "services g name = Some service"
      then have "(name, service) \<in> set entries" using mem [of "(name, service)"] by simp
      with a show "fst (checkServiceHealth net service)" by fastforce
    qed
  next
    assume a: "\<forall>name service. services g name = Some service \<longrightarrow>
                     fst (checkServiceHealth net service)"
    show ?ov
    proof
      fix x assume "x \<in> set entries"
      then have "services g (fst x) = Some (snd x)" using mem by blast
      with a show "fst (checkServiceHealth net (snd x))" by blast
    qed
  qed
  have 1: "status_healthy ?r =
             (\<forall>name entry. services_report ?r name = Some entry \<longrightarrow> healthy entry)"
  proof -
    have "(\<forall>name entry. ?results name = Some entry \<longrightarrow> healthy entry)
          = (\<forall>name service. services g name = Some service \<longrightarrow>
                     fst (checkServiceHealth net service))"
        using hb by (auto simp: report_def split: option.splits)
    then show ?thesis using ov by simp
  qed
  have 2: "status_code ?r = (if status_healthy ?r then 200 else 503)"
    by (simp add: StatusServiceUnavailable_def StatusOK_def)
  have some: "report net service \<noteq> None" if "services g name = Some service" for name service
    using hb [OF that] by (auto simp: report_def)
  have 3: "dom (services_report ?r) = dom (services g)"
  proof
    show "dom (services_report ?r) \<subseteq> dom (services g)"
      by (auto split: option.splits)
    show "dom (services g) \<subseteq> dom (services_report ?r)"
    proof
      fix name assume "name \<in> dom (services g)"
      then obtain service where sv: "services g name = Some service" by blast
      from some [OF sv] obtain e where "report net service = Some e" by blast
      with sv show "name \<in> dom (services_report ?r)" by (simp add: domI)
    qed
  qed
  have 4: "\<forall>name service cb.
           services g name = Some service \<and> svc_CircuitBreaker service = Some cb \<longrightarrow>
           (\<exists>entry. services_report ?r name = Some entry
              \<and> healthy entry = fst (checkServiceHealth net service)
              \<and> details entry = snd (checkServiceHealth net service)
              \<and> stat_state (circuit_breaker entry) =
                  (case state cb of
                     StateClosed \<Rightarrow> ''CLOSED''
                   | StateHalfOpen \<Rightarrow> ''HALF_OPEN''
                   | StateOpen \<Rightarrow> ''OPEN'')
              \<and> stat_failure_count (circuit_breaker entry) = failureCount cb
              \<and> stat_success_count (circuit_breaker entry) = successCount cb)"
  proof (intro allI impI)
    fix name service cb
    assume a: "services g name = Some service \<and> svc_CircuitBreaker service = Some cb"
    have n: "String (state cb) =
               (case state cb of
                  StateClosed \<Rightarrow> ''CLOSED''
                | StateHalfOpen \<Rightarrow> ''HALF_OPEN''
                | StateOpen \<Rightarrow> ''OPEN'')"
      by (cases "state cb") simp_all
    from a show "\<exists>entry. services_report ?r name = Some entry
              \<and> healthy entry = fst (checkServiceHealth net service)
              \<and> details entry = snd (checkServiceHealth net service)
              \<and> stat_state (circuit_breaker entry) =
                  (case state cb of
                     StateClosed \<Rightarrow> ''CLOSED''
                   | StateHalfOpen \<Rightarrow> ''HALF_OPEN''
                   | StateOpen \<Rightarrow> ''OPEN'')
              \<and> stat_failure_count (circuit_breaker entry) = failureCount cb
              \<and> stat_success_count (circuit_breaker entry) = successCount cb"
      unfolding n [symmetric] by (simp add: report_def GetStats_def)
  qed
  from r 1 2 3 4 show ?thesis by blast
qed


theorem health_aggregate_is_conjunction_witness:
  "three_services =
     gateway_after
       [Register user_service, Register order_service, Register payment_service,
        Dispatch ''payment-service'' (at_time (5 * second)) unparsable_url no_response]
   \<and> range_of three_services three_entries
   \<and> (case HealthCheckHandler orders_down three_entries 100 of
         Inl p \<Rightarrow> False
       | Inr r \<Rightarrow>
           status_code r = 503 \<and> \<not> status_healthy r
           \<and> map_option healthy (services_report r ''user-service'') = Some True
           \<and> map_option healthy (services_report r ''order-service'') = Some False
           \<and> map_option healthy (services_report r ''payment-service'') = Some True
           \<and> map_option (\<lambda>e. stat_state (circuit_breaker e))
                 (services_report r ''user-service'') = Some ''CLOSED''
           \<and> map_option (\<lambda>e. stat_failure_count (circuit_breaker e))
                 (services_report r ''user-service'') = Some 0
           \<and> map_option (\<lambda>e. stat_state (circuit_breaker e))
                 (services_report r ''payment-service'') = Some ''OPEN''
           \<and> map_option (\<lambda>e. stat_failure_count (circuit_breaker e))
                 (services_report r ''payment-service'') = Some 1)"
proof -
  let ?g3 = "RegisterService (RegisterService (RegisterService NewGateway user_service)
               order_service) payment_service"
  have reg: "three_services =
     gateway_after
       [Register user_service, Register order_service, Register payment_service,
        Dispatch ''payment-service'' (at_time (5 * second)) unparsable_url no_response]"
    by (rule three_services_def)
  have sv3: "services ?g3 =
          [''user-service'' \<mapsto> user_service, ''order-service'' \<mapsto> order_service_stored,
           ''payment-service'' \<mapsto> payment_service]"
    by (subst RegisterService_eq, subst RegisterService_eq, subst RegisterService_eq)
       (simp add: NewGateway_def user_service_def order_service_def order_service_stored_def
          payment_service_def second_def)
  have p: "services ?g3 ''payment-service'' = Some payment_service"
    unfolding sv3 by simp
  have pcb: "svc_CircuitBreaker payment_service = Some (NewCircuitBreaker settings1)"
    by (simp add: payment_service_def)
  have st: "state (NewCircuitBreaker settings1) \<noteq> StateOpen"
    by (simp add: NewCircuitBreaker_def)
  have env: "url_error unparsable_url
      = Some ''parse \"http://user service\": invalid character \" \" in host name''"
    "ctx_first unparsable_url = None"
    by (simp_all add: unparsable_url_def)
  have opened: "onFailure (NewCircuitBreaker settings1) (t_fail (at_time (5 * second))) = open1"
    by (simp add: onFailure_def NewCircuitBreaker_def settings1_def open1_def at_time_def
          zeroTime_def)
  have step: "gateway_step ?g3
                (Dispatch ''payment-service'' (at_time (5 * second)) unparsable_url no_response)
              = ?g3\<lparr>services := (services ?g3)
                    (''payment-service'' \<mapsto> payment_service\<lparr>svc_CircuitBreaker := Some open1\<rparr>)\<rparr>"
    by (simp add: dispatch_records_failure [OF p pcb st env] opened)
  have sv: "services three_services =
          [''user-service'' \<mapsto> user_service, ''order-service'' \<mapsto> order_service_stored,
           ''payment-service'' \<mapsto> payment_service\<lparr>svc_CircuitBreaker := Some open1\<rparr>]"
  proof -
    have ga: "three_services = gateway_step ?g3
            (Dispatch ''payment-service'' (at_time (5 * second)) unparsable_url no_response)"
      unfolding three_services_def gateway_after_def
      by (simp only: foldl_Cons foldl_Nil gateway_step.simps(1))
    show ?thesis unfolding ga step by (simp add: sv3)
  qed
  have rng: "range_of three_services three_entries"
    unfolding range_of_def sv
    by (auto simp: three_entries_def fun_eq_iff)
  have u: "services three_services ''user-service'' = Some user_service
           \<and> svc_CircuitBreaker user_service = Some (NewCircuitBreaker settings3)"
    unfolding sv by (simp add: user_service_def)
  have o: "services three_services ''order-service'' = Some order_service_stored
           \<and> svc_CircuitBreaker order_service_stored = Some (NewCircuitBreaker DefaultSettings)"
    unfolding sv by (simp add: order_service_stored_def)
  have py: "services three_services ''payment-service''
              = Some (payment_service\<lparr>svc_CircuitBreaker := Some open1\<rparr>)
           \<and> svc_CircuitBreaker (payment_service\<lparr>svc_CircuitBreaker := Some open1\<rparr>) = Some open1"
    unfolding sv by simp
  have hu: "fst (checkServiceHealth orders_down user_service)"
    by (simp add: checkServiceHealth_def user_service_def orders_down_def TrimSuffix_def
          TrimPrefix_def)
  have ho: "\<not> fst (checkServiceHealth orders_down order_service_stored)"
    by (simp add: checkServiceHealth_def order_service_stored_def order_service_def
          orders_down_def TrimSuffix_def TrimPrefix_def)
  have hp: "fst (checkServiceHealth orders_down (payment_service\<lparr>svc_CircuitBreaker := Some open1\<rparr>))"
    by (simp add: checkServiceHealth_def payment_service_def)
  from health_aggregate_is_conjunction [OF reg rng, of orders_down 100]
  obtain r where r: "HealthCheckHandler orders_down three_entries 100 = Inr r"
    and all: "status_healthy r =
                (\<forall>name entry. services_report r name = Some entry \<longrightarrow> healthy entry)"
    and code: "status_code r = (if status_healthy r then 200 else 503)"
    and each: "\<forall>name service cb.
           services three_services name = Some service \<and> svc_CircuitBreaker service = Some cb \<longrightarrow>
           (\<exists>entry. services_report r name = Some entry
              \<and> healthy entry = fst (checkServiceHealth orders_down service)
              \<and> details entry = snd (checkServiceHealth orders_down service)
              \<and> stat_state (circuit_breaker entry) =
                  (case state cb of
                     StateClosed \<Rightarrow> ''CLOSED''
                   | StateHalfOpen \<Rightarrow> ''HALF_OPEN''
                   | StateOpen \<Rightarrow> ''OPEN'')
              \<and> stat_failure_count (circuit_breaker entry) = failureCount cb
              \<and> stat_success_count (circuit_breaker entry) = successCount cb)"
    by blast
  from each u obtain eu where eu: "services_report r ''user-service'' = Some eu"
      "healthy eu = fst (checkServiceHealth orders_down user_service)"
      "stat_state (circuit_breaker eu) =
         (case state (NewCircuitBreaker settings3) of
            StateClosed \<Rightarrow> ''CLOSED'' | StateHalfOpen \<Rightarrow> ''HALF_OPEN'' | StateOpen \<Rightarrow> ''OPEN'')"
      "stat_failure_count (circuit_breaker eu) = failureCount (NewCircuitBreaker settings3)"
    by blast
  from each o obtain eo where eo: "services_report r ''order-service'' = Some eo"
      "healthy eo = fst (checkServiceHealth orders_down order_service_stored)"
    by blast
  from each py obtain ep where ep: "services_report r ''payment-service'' = Some ep"
      "healthy ep = fst (checkServiceHealth orders_down
                           (payment_service\<lparr>svc_CircuitBreaker := Some open1\<rparr>))"
      "stat_state (circuit_breaker ep) =
         (case state open1 of
            StateClosed \<Rightarrow> ''CLOSED'' | StateHalfOpen \<Rightarrow> ''HALF_OPEN'' | StateOpen \<Rightarrow> ''OPEN'')"
      "stat_failure_count (circuit_breaker ep) = failureCount open1"
    by blast
  have unhealthy: "\<not> status_healthy r"
    unfolding all using eo ho by blast
  have c: "status_code r = 503" using code unhealthy by simp
  have 1: "map_option healthy (services_report r ''user-service'') = Some True"
    using eu hu by simp
  have 2: "map_option healthy (services_report r ''order-service'') = Some False"
    using eo ho by simp
  have 3: "map_option (\<lambda>e. stat_state (circuit_breaker e))
                 (services_report r ''user-service'') = Some ''CLOSED''"
    using eu by (simp add: NewCircuitBreaker_def)
  have 4: "map_option (\<lambda>e. stat_failure_count (circuit_breaker e))
                 (services_report r ''user-service'') = Some 0"
    using eu by (simp add: NewCircuitBreaker_def)
  have 5: "map_option healthy (services_report r ''payment-service'') = Some True"
    using ep hp by simp
  have 6: "map_option (\<lambda>e. stat_state (circuit_breaker e))
                 (services_report r ''payment-service'') = Some ''OPEN''"
    using ep by (simp add: open1_def)
  have 7: "map_option (\<lambda>e. stat_failure_count (circuit_breaker e))
                 (services_report r ''payment-service'') = Some 1"
    using ep by (simp add: open1_def)
  from reg rng c unhealthy 1 2 3 4 5 6 7 show ?thesis
    unfolding r by simp
qed

end
